theory Spec2Isabelle
  imports Complex_Main "HOL-Library.Log_Nat"
begin

section \<open>Errors\<close>

text \<open>
  The exceptions that the modelled code can raise. \<open>ValueError\<close> carries the message of
  the \<^verbatim>\<open>raise\<close> statement; \<open>ZeroDivisionError\<close> and \<open>OverflowError\<close> come from Python's
  integer true division and from converting an integer to a float, \<open>KeyError\<close> from
  looking up a key that a dict does not have, \<open>MemoryError\<close> from building a text that
  is too long to be held.
\<close>

datatype error =
  ValueError string | ZeroDivisionError | OverflowError | KeyError string | MemoryError

section \<open>Decimal text of integers and \<open>make_asn_text\<close>\<close>

text \<open>
  \<^verbatim>\<open>str(n)\<close> for a Python int: the decimal digits, most significant first, with a
  leading minus sign for a negative number.
\<close>

definition digit_char :: "nat \<Rightarrow> char" where
  "digit_char d = ''0123456789'' ! d"

fun dec_digits :: "nat \<Rightarrow> string" where
  "dec_digits n = (if n < 10 then [digit_char n] else dec_digits (n div 10) @ [digit_char (n mod 10)])"

declare dec_digits.simps [simp del]

definition py_str_int :: "int \<Rightarrow> string" where
  "py_str_int n = (if n < 0 then CHR ''-'' # dec_digits (nat (- n)) else dec_digits (nat n))"

text \<open>
  Three bounds of the interpreter and the machine decide where formatting an int
  fails: \<open>ssize_max\<close> is \<^verbatim>\<open>sys.maxsize\<close>, the largest width that a format specification
  can name; \<open>int_max_str_digits\<close> is \<^verbatim>\<open>sys.get_int_max_str_digits()\<close>, the largest
  number of digits that an int may have when it is converted to decimal text (0
  switches the check off); \<open>str_max\<close> is the length of the longest text that the
  machine's memory can hold.
\<close>

record limits =
  ssize_max :: int
  int_max_str_digits :: nat
  str_max :: nat

text \<open>
  The conversion of an int with more digits than the limit (the sign is not counted)
  raises a ValueError that names the limit.
\<close>

definition digits_over :: "limits \<Rightarrow> int \<Rightarrow> bool" where
  "digits_over lims n \<longleftrightarrow>
     0 < int_max_str_digits lims \<and> int_max_str_digits lims < length (dec_digits (nat \<bar>n\<bar>))"

definition exceeds_limit :: "limits \<Rightarrow> error" where
  "exceeds_limit lims =
     ValueError (''Exceeds the limit ('' @ dec_digits (int_max_str_digits lims)
       @ '' digits) for integer string conversion; ''
       @ ''use sys.set_int_max_str_digits() to increase the limit'')"

text \<open>
  The replacement field \<^verbatim>\<open>{number:0{w}d}\<close> of an f-string. The nested field is filled
  first: \<open>w\<close> is converted to text, which fails for a \<open>w\<close> of more digits than the
  limit. The specification \<^verbatim>\<open>0<w>d\<close> is then read: a negative \<open>w\<close> gives \<^verbatim>\<open>0-1d\<close>,
  say, which is no format specification, and a width above \<^verbatim>\<open>sys.maxsize\<close> is
  refused; both are ValueErrors. Then the number is converted, which fails when it has
  more digits than the limit. The sign comes first and counts towards the width, zeros
  fill the space between the sign and the digits, and nothing is ever cut off; a text
  longer than the memory holds is a MemoryError.
\<close>

definition invalid_format_specifier :: "int \<Rightarrow> error" where
  "invalid_format_specifier width =
     ValueError (''Invalid format specifier '' @ [CHR 0x27] @ ''0'' @ py_str_int width @ ''d''
       @ [CHR 0x27] @ '' for object of type '' @ [CHR 0x27] @ ''int'' @ [CHR 0x27])"

definition format_0d :: "limits \<Rightarrow> int \<Rightarrow> int \<Rightarrow> error + string" where
  "format_0d lims number width =
     (if digits_over lims width then Inl (exceeds_limit lims)
      else if width < 0 then Inl (invalid_format_specifier width)
      else if ssize_max lims < width
        then Inl (ValueError ''Too many decimal digits in format string'')
      else if digits_over lims number then Inl (exceeds_limit lims)
      else
        let sign = (if number < 0 then ''-'' else '''');
            ds = dec_digits (nat \<bar>number\<bar>);
            s = sign @ replicate (nat width - length sign - length ds) CHR ''0'' @ ds
        in if str_max lims < length s then Inl MemoryError else Inr s)"

text \<open>
  \<^verbatim>\<open>
  def make_asn_text(prefix: str, number: int, leading_zeros: int) -> str:
      return f"{prefix}{number:0{leading_zeros}d}"
  \<close>
  The f-string joins the prefix and the formatted number.
\<close>

definition make_asn_text :: "limits \<Rightarrow> string \<Rightarrow> int \<Rightarrow> int \<Rightarrow> error + string" where
  "make_asn_text lims prefix number leading_zeros =
     (case format_0d lims number leading_zeros of
        Inl e \<Rightarrow> Inl e
      | Inr s \<Rightarrow>
          if str_max lims < length (prefix @ s) then Inl MemoryError else Inr (prefix @ s))"

text \<open>
  64-bit CPython 3.11 with its default digit limit, on a machine that holds a text of
  \<open>2 ^ 32\<close> characters.
\<close>

definition cpython64 :: limits where
  "cpython64 = \<lparr> ssize_max = 2 ^ 63 - 1, int_max_str_digits = 4300, str_max = 2 ^ 32 \<rparr>"

section \<open>Binary64 floating point\<close>

text \<open>
  Python's \<^verbatim>\<open>float\<close> is an IEEE 754 binary64 number. A finite float is modelled by
  its exact rational value; the sign of zero is not modelled (\<^verbatim>\<open>0.0 == -0.0\<close> in
  Python). Every arithmetic operation computes the exact result and rounds it to the
  nearest representable value, ties to the even significand.
\<close>

datatype double = Fin rat | PInf | NInf | NaN

definition round_half_even :: "rat \<Rightarrow> int" where
  "round_half_even q =
     (let f = \<lfloor>q\<rfloor>; d = q - of_int f
      in if d < 1 / 2 then f else if 1 / 2 < d then f + 1 else if even f then f else f + 1)"

text \<open>The binary exponent of a positive rational: \<open>2 powi expo a \<le> a < 2 powi (expo a + 1)\<close>.\<close>

definition expo :: "rat \<Rightarrow> int" where
  "expo a = (if 1 \<le> a then bitlen \<lfloor>a\<rfloor> - 1 else - bitlen (\<lceil>1 / a\<rceil> - 1))"

text \<open>
  Rounding of a positive rational to 53 significant bits, with the exponent not going
  below that of the subnormal numbers (the unit in the last place is at least
  \<open>2 powi - 1074\<close>).
\<close>

definition fl_pos :: "rat \<Rightarrow> rat" where
  "fl_pos a = (let u = 2 powi (max (expo a) (- 1022) - 52)
               in of_int (round_half_even (a / u)) * u)"

text \<open>Rounding to binary64; a result of magnitude \<open>2 ^ 1024\<close> or more overflows to infinity.\<close>

definition fl :: "rat \<Rightarrow> double" where
  "fl q = (if q = 0 then Fin 0
           else let r = fl_pos \<bar>q\<bar>
                in if 2 ^ 1024 \<le> r then (if 0 < q then PInf else NInf)
                   else Fin (if 0 < q then r else - r))"

definition the_fin :: "double \<Rightarrow> rat" where
  "the_fin d = (case d of Fin r \<Rightarrow> r | _ \<Rightarrow> 0)"

fun fneg :: "double \<Rightarrow> double" where
  "fneg (Fin x) = Fin (- x)"
| "fneg PInf = NInf"
| "fneg NInf = PInf"
| "fneg NaN = NaN"

fun fadd :: "double \<Rightarrow> double \<Rightarrow> double" where
  "fadd (Fin x) (Fin y) = fl (x + y)"
| "fadd NaN _ = NaN"
| "fadd _ NaN = NaN"
| "fadd PInf NInf = NaN"
| "fadd NInf PInf = NaN"
| "fadd PInf _ = PInf"
| "fadd _ PInf = PInf"
| "fadd NInf _ = NInf"
| "fadd _ NInf = NInf"

definition fsub :: "double \<Rightarrow> double \<Rightarrow> double" where
  "fsub a b = fadd a (fneg b)"

fun fmul :: "double \<Rightarrow> double \<Rightarrow> double" where
  "fmul (Fin x) (Fin y) = fl (x * y)"
| "fmul NaN _ = NaN"
| "fmul _ NaN = NaN"
| "fmul (Fin x) PInf = (if x = 0 then NaN else if 0 < x then PInf else NInf)"
| "fmul (Fin x) NInf = (if x = 0 then NaN else if 0 < x then NInf else PInf)"
| "fmul PInf (Fin y) = (if y = 0 then NaN else if 0 < y then PInf else NInf)"
| "fmul NInf (Fin y) = (if y = 0 then NaN else if 0 < y then NInf else PInf)"
| "fmul PInf PInf = PInf"
| "fmul PInf NInf = NInf"
| "fmul NInf PInf = NInf"
| "fmul NInf NInf = PInf"

text \<open>
  \<^verbatim>\<open>float(n)\<close> for an int, as done implicitly by \<^verbatim>\<open>n * x\<close> with a float \<open>x\<close>:
  correctly rounded, OverflowError when the int is too large.
\<close>

definition py_float_of_int :: "int \<Rightarrow> error + double" where
  "py_float_of_int n = (case fl (of_int n) of Fin r \<Rightarrow> Inr (Fin r) | _ \<Rightarrow> Inl OverflowError)"

text \<open>
  \<^verbatim>\<open>a / b\<close> for two ints: the exact quotient, correctly rounded to a float;
  ZeroDivisionError for \<open>b = 0\<close>, OverflowError when the quotient is too large.
\<close>

definition py_truediv :: "int \<Rightarrow> int \<Rightarrow> error + double" where
  "py_truediv a b =
     (if b = 0 then Inl ZeroDivisionError
      else case fl (of_int a / of_int b) of Fin r \<Rightarrow> Inr (Fin r) | _ \<Rightarrow> Inl OverflowError)"

text \<open>\<^verbatim>\<open>math.ceil(x)\<close> for a float.\<close>

fun math_ceil :: "double \<Rightarrow> error + int" where
  "math_ceil (Fin r) = Inr \<lceil>r\<rceil>"
| "math_ceil NaN = Inl (ValueError ''cannot convert float NaN to integer'')"
| "math_ceil _ = Inl OverflowError"

text \<open>The expression \<^verbatim>\<open>math.ceil(count / labels_per_page)\<close>, on two ints.\<close>

definition math_ceil_truediv :: "int \<Rightarrow> int \<Rightarrow> error + int" where
  "math_ceil_truediv a b = (case py_truediv a b of Inl e \<Rightarrow> Inl e | Inr q \<Rightarrow> math_ceil q)"

section \<open>Units and page size of the drawing library\<close>

text \<open>
  The constants that the program imports from reportlab:
  \<^verbatim>\<open>inch = 72.0\<close>, \<^verbatim>\<open>cm = inch / 2.54\<close>, \<^verbatim>\<open>mm = cm * 0.1\<close> and
  \<^verbatim>\<open>A4 = (210*mm, 297*mm)\<close>. A decimal literal denotes the nearest float.
\<close>

definition inch :: double where
  "inch = Fin 72"

definition cm :: double where
  "cm = fl (the_fin inch / the_fin (fl (254 / 100)))"

definition mm :: double where
  "mm = fmul cm (fl (1 / 10))"

definition A4 :: "double \<times> double" where
  "A4 = (fmul (Fin 210) mm, fmul (Fin 297) mm)"

section \<open>Sheet layout\<close>

datatype BarcodeKind = QR | CODE128

record SheetLayout =
  name :: string
  cols :: int
  rows :: int
  label_w :: double
  label_h :: double
  gap_x :: double
  gap_y :: double
  margin_left :: double
  margin_top :: double

definition labels_per_page :: "SheetLayout \<Rightarrow> int" where
  "labels_per_page l = cols l * rows l"

definition pitch_x :: "SheetLayout \<Rightarrow> double" where
  "pitch_x l = fadd (label_w l) (gap_x l)"

definition pitch_y :: "SheetLayout \<Rightarrow> double" where
  "pitch_y l = fadd (label_h l) (gap_y l)"

definition AVERY_L4731 :: SheetLayout where
  "AVERY_L4731 =
     \<lparr> name = ''Avery Zweckform L4731 / L4731REV (7x27, 25.4mm x 10mm)'',
       cols = 7,
       rows = 27,
       label_w = fmul (fl (254 / 10)) mm,
       label_h = fmul (Fin 10) mm,
       gap_x = fmul (fl (25 / 100)) cm,
       gap_y = fmul (Fin 0) cm,
       margin_left = fmul (fl (85 / 100)) cm,
       margin_top = fmul (fl (135 / 100)) cm \<rparr>"

section \<open>The canvas and the output file\<close>

text \<open>
  The drawing libraries (reportlab, qrcode, Pillow) are modelled by what the program
  asks of them. A call \<^verbatim>\<open>draw_label(c, x, y, layout, text, kind, draw_border)\<close> is
  recorded on the current page with the rectangle \<open>[x, y, label_w, label_h]\<close> (origin
  bottom-left), the text, the code kind and the border flag; how the code and the text
  are rendered inside the rectangle is left to the libraries. \<^verbatim>\<open>showPage\<close> closes the
  current page, and \<^verbatim>\<open>save\<close> writes the closed pages to the file named when the canvas
  was made.
\<close>

record label_call =
  lc_x :: double
  lc_y :: double
  lc_w :: double
  lc_h :: double
  lc_text :: string
  lc_kind :: BarcodeKind
  lc_border :: bool

type_synonym document = "label_call list list"

type_synonym files = "string \<rightharpoonup> document"

record canvas =
  c_filename :: string
  c_pages :: document
  c_current :: "label_call list"

text \<open>
  Every call into the libraries can fail: they raise an exception for a label that
  they cannot draw, for instance for a text that is too long for a QR code, and for a
  file that they cannot write. Which calls these are is not decided by this program,
  so it is a parameter of the model, one field for each of the four calls that
  \<^verbatim>\<open>generate_pdf\<close> makes: the exception that the call raises, and \<open>None\<close> when it does
  what is described above. A \<^verbatim>\<open>save\<close> that fails also says which files it leaves
  behind.
\<close>

record library =
  Canvas_raises :: "string \<Rightarrow> error option"
  draw_label_raises :: "canvas \<Rightarrow> label_call \<Rightarrow> error option"
  showPage_raises :: "canvas \<Rightarrow> error option"
  save_raises :: "canvas \<Rightarrow> files \<Rightarrow> (error \<times> files) option"

text \<open>\<^verbatim>\<open>rl_canvas.Canvas(output_path, pagesize=A4)\<close>\<close>

definition Canvas :: "library \<Rightarrow> string \<Rightarrow> error + canvas" where
  "Canvas lib output_path =
     (case Canvas_raises lib output_path of
        Some e \<Rightarrow> Inl e
      | None \<Rightarrow> Inr \<lparr> c_filename = output_path, c_pages = [], c_current = [] \<rparr>)"

definition draw_label ::
  "library \<Rightarrow> canvas \<Rightarrow> double \<Rightarrow> double \<Rightarrow> SheetLayout \<Rightarrow> string \<Rightarrow> BarcodeKind \<Rightarrow> bool \<Rightarrow>
   error + canvas" where
  "draw_label lib c x y layout text kind draw_border =
     (let call = \<lparr> lc_x = x, lc_y = y, lc_w = label_w layout, lc_h = label_h layout,
                    lc_text = text, lc_kind = kind, lc_border = draw_border \<rparr>
      in case draw_label_raises lib c call of
           Some e \<Rightarrow> Inl e
         | None \<Rightarrow> Inr (c\<lparr> c_current := c_current c @ [call] \<rparr>))"

definition showPage :: "library \<Rightarrow> canvas \<Rightarrow> error + canvas" where
  "showPage lib c =
     (case showPage_raises lib c of
        Some e \<Rightarrow> Inl e
      | None \<Rightarrow> Inr (c\<lparr> c_pages := c_pages c @ [c_current c], c_current := [] \<rparr>))"

text \<open>
  \<^verbatim>\<open>save\<close> closes a page that has been drawn on and not closed, and writes the file.
  Its result is the exception raised, if any, and the files afterwards.
\<close>

definition save :: "library \<Rightarrow> canvas \<Rightarrow> files \<Rightarrow> error option \<times> files" where
  "save lib c fs =
     (case save_raises lib c fs of
        Some (e, fs') \<Rightarrow> (Some e, fs')
      | None \<Rightarrow>
          (None, fs(c_filename c \<mapsto>
                      (if c_current c = [] then c_pages c else c_pages c @ [c_current c]))))"

text \<open>The libraries on a run in which none of their calls fails.\<close>

definition libraries_work :: library where
  "libraries_work =
     \<lparr> Canvas_raises = (\<lambda>output_path. None), draw_label_raises = (\<lambda>c call. None),
       showPage_raises = (\<lambda>c. None), save_raises = (\<lambda>c fs. None) \<rparr>"

section \<open>\<open>generate_pdf\<close>\<close>

text \<open>
  The locals that \<^verbatim>\<open>generate_pdf\<close> computes before its loops: the page height of A4
  and the effective pitches and offsets in points.
  \<^verbatim>\<open>
      _page_w, page_h = A4
      pitch_x = layout.pitch_x + (pitch_dx_mm * mm)
      pitch_y = layout.pitch_y + (pitch_dy_mm * mm)
      off_x = offset_x_mm * mm
      off_y = offset_y_mm * mm
  \<close>
\<close>

record geometry =
  g_page_h :: double
  g_pitch_x :: double
  g_pitch_y :: double
  g_off_x :: double
  g_off_y :: double

definition effective_geometry ::
  "SheetLayout \<Rightarrow> double \<Rightarrow> double \<Rightarrow> double \<Rightarrow> double \<Rightarrow> geometry" where
  "effective_geometry layout offset_x_mm offset_y_mm pitch_dx_mm pitch_dy_mm =
     \<lparr> g_page_h = snd A4,
       g_pitch_x = fadd (pitch_x layout) (fmul pitch_dx_mm mm),
       g_pitch_y = fadd (pitch_y layout) (fmul pitch_dy_mm mm),
       g_off_x = fmul offset_x_mm mm,
       g_off_y = fmul offset_y_mm mm \<rparr>"

text \<open>
  The origin of the label with index \<open>i\<close> on its page:
  \<^verbatim>\<open>
            r = i // layout.cols
            col = i % layout.cols
            x = layout.margin_left + col * pitch_x + off_x
            y = page_h - layout.margin_top - layout.label_h - r * pitch_y + off_y
  \<close>
  Python's \<^verbatim>\<open>//\<close> and \<^verbatim>\<open>%\<close> on ints round towards minus infinity, as \<open>div\<close> and
  \<open>mod\<close> do on \<open>int\<close>; the int factors are converted to floats.
\<close>

definition label_xy :: "SheetLayout \<Rightarrow> geometry \<Rightarrow> int \<Rightarrow> error + (double \<times> double)" where
  "label_xy layout g i =
     (if cols layout = 0 then Inl ZeroDivisionError
      else
        let r = i div cols layout;
            col = i mod cols layout
        in case py_float_of_int col of
             Inl e \<Rightarrow> Inl e
           | Inr colf \<Rightarrow>
               (let x = fadd (fadd (margin_left layout) (fmul colf (g_pitch_x g))) (g_off_x g)
                in (case py_float_of_int r of
                      Inl e \<Rightarrow> Inl e
                    | Inr rf \<Rightarrow>
                        (let y = fadd (fsub (fsub (fsub (g_page_h g) (margin_top layout))
                                                  (label_h layout))
                                            (fmul rf (g_pitch_y g)))
                                      (g_off_y g)
                         in Inr (x, y)))))"

text \<open>
  The arguments of \<^verbatim>\<open>generate_pdf\<close> that its loops read, with the effective
  geometry computed from the calibration arguments, and the interpreter's limits and
  the libraries that the run meets.
\<close>

record job =
  j_limits :: limits
  j_library :: library
  j_prefix :: string
  j_leading_zeros :: int
  j_kind :: BarcodeKind
  j_layout :: SheetLayout
  j_draw_border :: bool
  j_geometry :: geometry

definition make_job ::
  "limits \<Rightarrow> library \<Rightarrow> string \<Rightarrow> int \<Rightarrow> BarcodeKind \<Rightarrow> SheetLayout \<Rightarrow> bool \<Rightarrow>
   double \<Rightarrow> double \<Rightarrow> double \<Rightarrow> double \<Rightarrow> job" where
  "make_job lims lib prefix leading_zeros kind layout draw_border
            offset_x_mm offset_y_mm pitch_dx_mm pitch_dy_mm =
     \<lparr> j_limits = lims, j_library = lib, j_prefix = prefix, j_leading_zeros = leading_zeros, j_kind = kind,
       j_layout = layout, j_draw_border = draw_border,
       j_geometry = effective_geometry layout offset_x_mm offset_y_mm pitch_dx_mm pitch_dy_mm \<rparr>"

text \<open>
  The inner loop \<^verbatim>\<open>for i in range(n_this_page)\<close>, over the list of its indices; the
  state is the canvas and the running number \<open>current\<close>.
\<close>

fun label_loop :: "job \<Rightarrow> nat list \<Rightarrow> canvas \<Rightarrow> int \<Rightarrow> error + (canvas \<times> int)" where
  "label_loop j [] c current = Inr (c, current)"
| "label_loop j (i # is) c current =
     (case label_xy (j_layout j) (j_geometry j) (int i) of
        Inl e \<Rightarrow> Inl e
      | Inr (x, y) \<Rightarrow>
          (case make_asn_text (j_limits j) (j_prefix j) current (j_leading_zeros j) of
             Inl e \<Rightarrow> Inl e
           | Inr text \<Rightarrow>
               (case draw_label (j_library j) c x y (j_layout j) text (j_kind j)
                       (j_draw_border j) of
                  Inl e \<Rightarrow> Inl e
                | Inr c' \<Rightarrow> label_loop j is c' (current + 1))))"

text \<open>
  The outer loop \<^verbatim>\<open>for _ in range(pages)\<close>, by the number of pages still to do; the
  state is the canvas, \<open>current\<close> and \<open>remaining\<close>.
\<close>

fun page_loop :: "job \<Rightarrow> nat \<Rightarrow> canvas \<Rightarrow> int \<Rightarrow> int \<Rightarrow> error + (canvas \<times> int \<times> int)" where
  "page_loop j 0 c current remaining = Inr (c, current, remaining)"
| "page_loop j (Suc k) c current remaining =
     (let n_this_page = min remaining (labels_per_page (j_layout j))
      in (case label_loop j [0..<nat n_this_page] c current of
            Inl e \<Rightarrow> Inl e
          | Inr (c', current') \<Rightarrow>
              (case showPage (j_library j) c' of
                 Inl e \<Rightarrow> Inl e
               | Inr c'' \<Rightarrow> page_loop j k c'' current' (remaining - n_this_page))))"

text \<open>
  \<^verbatim>\<open>generate_pdf\<close> takes the files that exist and returns, next to its result
  \<open>(pages_generated, next_number)\<close> or the exception raised, the files afterwards. Its
  first two arguments are the limits of the interpreter and the libraries of the run.
\<close>

definition generate_pdf ::
  "limits \<Rightarrow> library \<Rightarrow> files \<Rightarrow> string \<Rightarrow> int \<Rightarrow> int \<Rightarrow> string \<Rightarrow> int \<Rightarrow> BarcodeKind \<Rightarrow>
   SheetLayout \<Rightarrow> bool \<Rightarrow> double \<Rightarrow> double \<Rightarrow> double \<Rightarrow> double \<Rightarrow>
   (error + (int \<times> int)) \<times> files" where
  "generate_pdf lims lib fs output_path start_number count prefix leading_zeros kind layout
                draw_border offset_x_mm offset_y_mm pitch_dx_mm pitch_dy_mm =
     (if count \<le> 0 then (Inl (ValueError ''count must be > 0''), fs)
      else if start_number \<le> 0 then (Inl (ValueError ''start_number must be > 0''), fs)
      else if leading_zeros < 0 then (Inl (ValueError ''leading_zeros must be >= 0''), fs)
      else if prefix = [] then (Inl (ValueError ''prefix must not be empty''), fs)
      else
        case math_ceil_truediv count (labels_per_page layout) of
          Inl e \<Rightarrow> (Inl e, fs)
        | Inr pages \<Rightarrow>
            (case Canvas lib output_path of
               Inl e \<Rightarrow> (Inl e, fs)
             | Inr c0 \<Rightarrow>
                 (case page_loop
                         (make_job lims lib prefix leading_zeros kind layout draw_border
                            offset_x_mm offset_y_mm pitch_dx_mm pitch_dy_mm)
                         (nat pages) c0 start_number count of
                    Inl e \<Rightarrow> (Inl e, fs)
                  | Inr (c, current, remaining) \<Rightarrow>
                      (case save lib c fs of
                         (Some e, fs') \<Rightarrow> (Inl e, fs')
                       | (None, fs') \<Rightarrow> (Inr (pages, current), fs')))))"

section \<open>The output of the loops in closed form\<close>

text \<open>
  The label text as the specification words it: the prefix, then the decimal
  representation of the number padded with zeros on the left to at least
  \<open>leading_zeros\<close> digits.
\<close>

definition padded_text :: "string \<Rightarrow> int \<Rightarrow> int \<Rightarrow> string" where
  "padded_text prefix leading_zeros n =
     prefix @ replicate (nat leading_zeros - length (py_str_int n)) CHR ''0'' @ py_str_int n"

text \<open>
  The origin of a label as the specification words it, in float arithmetic:
  \<open>x = left-margin + column * effective-pitch-x + offset-x\<close> and
  \<open>y = page-height - top-margin - label-height - row * effective-pitch-y + offset-y\<close>,
  evaluated from left to right; \<open>fl (of_int n)\<close> is the float of the int \<open>n\<close>.
\<close>

definition origin_x :: "SheetLayout \<Rightarrow> geometry \<Rightarrow> int \<Rightarrow> double" where
  "origin_x layout g col =
     fadd (fadd (margin_left layout) (fmul (fl (of_int col)) (g_pitch_x g))) (g_off_x g)"

definition origin_y :: "SheetLayout \<Rightarrow> geometry \<Rightarrow> int \<Rightarrow> double" where
  "origin_y layout g r =
     fadd (fsub (fsub (fsub (g_page_h g) (margin_top layout)) (label_h layout))
                (fmul (fl (of_int r)) (g_pitch_y g)))
          (g_off_y g)"

text \<open>
  The call recorded for the label with index \<open>i\<close> on its page and number \<open>n\<close>: row
  \<open>i div cols\<close>, column \<open>i mod cols\<close>.
\<close>

definition label_at :: "job \<Rightarrow> int \<Rightarrow> int \<Rightarrow> label_call" where
  "label_at j i n =
     \<lparr> lc_x = origin_x (j_layout j) (j_geometry j) (i mod cols (j_layout j)),
       lc_y = origin_y (j_layout j) (j_geometry j) (i div cols (j_layout j)),
       lc_w = label_w (j_layout j),
       lc_h = label_h (j_layout j),
       lc_text = (case make_asn_text (j_limits j) (j_prefix j) n (j_leading_zeros j) of
                    Inl e \<Rightarrow> [] | Inr t \<Rightarrow> t),
       lc_kind = j_kind j,
       lc_border = j_draw_border j \<rparr>"

text \<open>A page of \<open>n\<close> labels whose first number is \<open>current\<close>.\<close>

definition page_labels :: "job \<Rightarrow> int \<Rightarrow> nat \<Rightarrow> label_call list" where
  "page_labels j current n = map (\<lambda>i. label_at j (int i) (current + int i)) [0..<n]"

text \<open>
  Page \<open>p\<close> (from 0) of a run that starts at number \<open>start\<close> with \<open>count\<close> labels to
  place: the pages before it took \<open>min (p * labels_per_page) count\<close> labels, and it takes
  \<open>labels_per_page\<close> of what remains, or all of it.
\<close>

definition page_at :: "job \<Rightarrow> int \<Rightarrow> int \<Rightarrow> nat \<Rightarrow> label_call list" where
  "page_at j start count p =
     (let lpp = labels_per_page (j_layout j)
      in page_labels j (start + min (int p * lpp) count)
           (nat (min (max (count - int p * lpp) 0) lpp)))"



section \<open>Settings and the form\<close>

text \<open>
  The values that a settings dict can hold: the scalars of JSON. (A list or a dict as a
  value is not modelled.)
\<close>

datatype pyval = PStr string | PInt int | PFloat double | PBool bool | PNone

text \<open>
  Three built-ins of Python are parameters of the model: \<^verbatim>\<open>float(s)\<close> and
  \<^verbatim>\<open>int(s)\<close> on a string (\<open>None\<close> for a ValueError) and \<^verbatim>\<open>str(x)\<close> on a float.
\<close>

record builtins =
  float_of_str :: "string \<Rightarrow> double option"
  str_of_float :: "double \<Rightarrow> string"
  int_of_str :: "string \<Rightarrow> int option"

text \<open>\<^verbatim>\<open>str(v)\<close> and \<^verbatim>\<open>bool(v)\<close> on such a value.\<close>

fun py_str :: "builtins \<Rightarrow> pyval \<Rightarrow> string" where
  "py_str b (PStr s) = s"
| "py_str b (PInt n) = py_str_int n"
| "py_str b (PFloat x) = str_of_float b x"
| "py_str b (PBool v) = (if v then ''True'' else ''False'')"
| "py_str b PNone = ''None''"

fun py_bool :: "pyval \<Rightarrow> bool" where
  "py_bool (PStr s) = (s \<noteq> [])"
| "py_bool (PInt n) = (n \<noteq> 0)"
| "py_bool (PFloat x) = (x \<noteq> Fin 0)"
| "py_bool (PBool v) = v"
| "py_bool PNone = False"

text \<open>
  \<^verbatim>\<open>s.strip()\<close>, \<^verbatim>\<open>s.lower()\<close> and \<^verbatim>\<open>s.replace(",", ".")\<close>, on strings whose
  characters are the code points below 256: the white space and the capital letters of
  that range.
\<close>

definition is_space :: "char \<Rightarrow> bool" where
  "is_space c = ((of_char c :: nat) \<in> {9, 10, 11, 12, 13, 28, 29, 30, 31, 32, 133, 160})"

definition strip :: "string \<Rightarrow> string" where
  "strip s = rev (dropWhile is_space (rev (dropWhile is_space s)))"

definition lower_char :: "char \<Rightarrow> char" where
  "lower_char c =
     (let n = (of_char c :: nat)
      in if 65 \<le> n \<and> n \<le> 90 then ''abcdefghijklmnopqrstuvwxyz'' ! (n - 65)
         else if 192 \<le> n \<and> n \<le> 222 \<and> n \<noteq> 215 then char_of (n + 32)
         else c)"

definition lower :: "string \<Rightarrow> string" where
  "lower s = map lower_char s"

definition replace_comma :: "string \<Rightarrow> string" where
  "replace_comma s = map (\<lambda>c. if c = CHR '','' then CHR ''.'' else c) s"

text \<open>
  \<^verbatim>\<open>
      def _coerce_float(self, value: object) -> float | None:
          try:
              return float(str(value).strip().replace(",", "."))
          except Exception:
              return None
  \<close>
\<close>

definition coerce_float :: "builtins \<Rightarrow> pyval \<Rightarrow> double option" where
  "coerce_float b v = float_of_str b (replace_comma (strip (py_str b v)))"

text \<open>The test \<^verbatim>\<open>abs(v) < 1e-9\<close>; it is false for an infinity and for NaN.\<close>

definition near_zero :: "double \<Rightarrow> bool" where
  "near_zero v = (case v of Fin r \<Rightarrow> \<bar>r\<bar> < the_fin (fl (1 / 1000000000)) | _ \<Rightarrow> False)"

text \<open>
  \<^verbatim>\<open>
  BASE_CALIBRATION_MM = {"off_x": -4.5, "off_y": 7.0, "pitch_dx": 1.2, "pitch_dy": 0.42}
  \<close>
\<close>

definition BASE_CALIBRATION_MM :: "string \<rightharpoonup> double" where
  "BASE_CALIBRATION_MM =
     [''off_x'' \<mapsto> fneg (fl (45 / 10)),
      ''off_y'' \<mapsto> fl 7,
      ''pitch_dx'' \<mapsto> fl (12 / 10),
      ''pitch_dy'' \<mapsto> fl (42 / 100)]"


text \<open>
  The variables of the form (the \<^verbatim>\<open>tk.StringVar\<close>s and the one \<^verbatim>\<open>tk.BooleanVar\<close>
  of \<^verbatim>\<open>App\<close>) and the flag \<^verbatim>\<open>_loading_settings\<close>. The methods of \<^verbatim>\<open>App\<close> are
  named without their leading underscore.
\<close>

record app =
  var_start :: string
  var_mode :: string
  var_count :: string
  var_pages :: string
  var_prefix :: string
  var_zeros :: string
  var_kind :: string
  var_border :: bool
  var_off_x :: string
  var_off_y :: string
  var_pitch_dx :: string
  var_pitch_dy :: string
  loading_settings :: bool

type_synonym settings = "string \<rightharpoonup> pyval"

definition settings_to_dict :: "app \<Rightarrow> settings" where
  "settings_to_dict st =
     [''start'' \<mapsto> PStr (var_start st),
      ''mode'' \<mapsto> PStr (var_mode st),
      ''count'' \<mapsto> PStr (var_count st),
      ''pages'' \<mapsto> PStr (var_pages st),
      ''prefix'' \<mapsto> PStr (var_prefix st),
      ''zeros'' \<mapsto> PStr (var_zeros st),
      ''kind'' \<mapsto> PStr (var_kind st),
      ''border'' \<mapsto> PBool (var_border st),
      ''off_x'' \<mapsto> PStr (var_off_x st),
      ''off_y'' \<mapsto> PStr (var_off_y st),
      ''pitch_dx'' \<mapsto> PStr (var_pitch_dx st),
      ''pitch_dy'' \<mapsto> PStr (var_pitch_dy st),
      ''calibration_mode'' \<mapsto> PStr ''delta'']"

text \<open>\<^verbatim>\<open>d.get(k)\<close>: \<open>None\<close> for a missing key.\<close>

definition dict_get :: "settings \<Rightarrow> string \<Rightarrow> pyval" where
  "dict_get d k = (case d k of None \<Rightarrow> PNone | Some v \<Rightarrow> v)"

text \<open>
  The first lines of \<^verbatim>\<open>_apply_settings_from_dict\<close>:
  \<^verbatim>\<open>
            calibration_mode = str(d.get("calibration_mode", "")).strip().lower()
            legacy_absolute = calibration_mode != "delta"
            if calibration_mode == "":
                parsed = [self._coerce_float(d.get(k))
                          for k in ("off_x", "off_y", "pitch_dx", "pitch_dy") if k in d]
                if parsed and all(v is not None and abs(v) < 1e-9 for v in parsed):
                    legacy_absolute = False
  \<close>
\<close>

definition calibration_mode_of :: "builtins \<Rightarrow> settings \<Rightarrow> string" where
  "calibration_mode_of b d =
     lower (strip (py_str b (case d ''calibration_mode'' of None \<Rightarrow> PStr [] | Some v \<Rightarrow> v)))"

definition legacy_absolute :: "builtins \<Rightarrow> settings \<Rightarrow> bool" where
  "legacy_absolute b d =
     (let calibration_mode = calibration_mode_of b d
      in if calibration_mode = []
         then
           (let parsed = map (\<lambda>k. coerce_float b (dict_get d k))
                             (filter (\<lambda>k. d k \<noteq> None)
                                     [''off_x'', ''off_y'', ''pitch_dx'', ''pitch_dy''])
            in if parsed \<noteq> []
                  \<and> list_all (\<lambda>v. case v of None \<Rightarrow> False | Some x \<Rightarrow> near_zero x) parsed
               then False
               else calibration_mode \<noteq> ''delta'')
         else calibration_mode \<noteq> ''delta'')"

text \<open>
  The local function \<^verbatim>\<open>set_calibration_var(key, var)\<close>; the variable is given by the
  function that sets it. It is called with the four keys of \<open>BASE_CALIBRATION_MM\<close> only,
  so the lookup of the base value cannot fail.
  \<^verbatim>\<open>
                if key not in d:
                    return
                if legacy_absolute:
                    absolute = self._coerce_float(d.get(key))
                    if absolute is not None:
                        var.set(str(absolute - BASE_CALIBRATION_MM[key]))
                        return
                var.set(str(d[key]))
  \<close>
\<close>

definition set_calibration_var ::
  "builtins \<Rightarrow> settings \<Rightarrow> bool \<Rightarrow> string \<Rightarrow> (string \<Rightarrow> app \<Rightarrow> app) \<Rightarrow> app \<Rightarrow> app" where
  "set_calibration_var b d legacy key var_set st =
     (case d key of
        None \<Rightarrow> st
      | Some v \<Rightarrow>
          (case (if legacy then coerce_float b v else None) of
             Some absolute \<Rightarrow>
               (case BASE_CALIBRATION_MM key of
                  Some base \<Rightarrow> var_set (str_of_float b (fsub absolute base)) st
                | None \<Rightarrow> st)
           | None \<Rightarrow> var_set (py_str b v) st))"

text \<open>\<^verbatim>\<open>if key in d: var.set(...)\<close>\<close>

definition set_from :: "settings \<Rightarrow> string \<Rightarrow> (pyval \<Rightarrow> app \<Rightarrow> app) \<Rightarrow> app \<Rightarrow> app" where
  "set_from d key var_set st = (case d key of None \<Rightarrow> st | Some v \<Rightarrow> var_set v st)"

definition apply_settings_from_dict :: "builtins \<Rightarrow> app \<Rightarrow> settings \<Rightarrow> app" where
  "apply_settings_from_dict b st d =
     (let legacy = legacy_absolute b d;
          s0 = st\<lparr> loading_settings := True \<rparr>;
          s1 = set_from d ''start'' (\<lambda>v s. s\<lparr> var_start := py_str b v \<rparr>) s0;
          s2 = set_from d ''mode'' (\<lambda>v s. s\<lparr> var_mode := py_str b v \<rparr>) s1;
          s3 = set_from d ''count'' (\<lambda>v s. s\<lparr> var_count := py_str b v \<rparr>) s2;
          s4 = set_from d ''pages'' (\<lambda>v s. s\<lparr> var_pages := py_str b v \<rparr>) s3;
          s5 = set_from d ''prefix'' (\<lambda>v s. s\<lparr> var_prefix := py_str b v \<rparr>) s4;
          s6 = set_from d ''zeros'' (\<lambda>v s. s\<lparr> var_zeros := py_str b v \<rparr>) s5;
          s7 = set_from d ''kind'' (\<lambda>v s. s\<lparr> var_kind := py_str b v \<rparr>) s6;
          s8 = set_from d ''border'' (\<lambda>v s. s\<lparr> var_border := py_bool v \<rparr>) s7;
          s9 = set_calibration_var b d legacy ''off_x'' (\<lambda>x s. s\<lparr> var_off_x := x \<rparr>) s8;
          s10 = set_calibration_var b d legacy ''off_y'' (\<lambda>x s. s\<lparr> var_off_y := x \<rparr>) s9;
          s11 = set_calibration_var b d legacy ''pitch_dx'' (\<lambda>x s. s\<lparr> var_pitch_dx := x \<rparr>) s10;
          s12 = set_calibration_var b d legacy ''pitch_dy'' (\<lambda>x s. s\<lparr> var_pitch_dy := x \<rparr>) s11
      in s12\<lparr> loading_settings := False \<rparr>)"







text \<open>The variable that belongs to a calibration key.\<close>

definition calibration_var :: "string \<Rightarrow> app \<Rightarrow> string" where
  "calibration_var key st =
     (if key = ''off_x'' then var_off_x st
      else if key = ''off_y'' then var_off_y st
      else if key = ''pitch_dx'' then var_pitch_dx st
      else var_pitch_dy st)"

text \<open>
  An excerpt of the three built-ins, for the examples: the entries are Python's values
  (\<^verbatim>\<open>float("2.5") == 2.5\<close>, \<^verbatim>\<open>str(7.0) == "7.0"\<close>, \<^verbatim>\<open>int("189") == 189\<close>); the
  examples use no other string or float.
\<close>

definition example_builtins :: builtins where
  "example_builtins =
     \<lparr> float_of_str = map_of [(''0'', Fin 0), (''0.0'', Fin 0), (''2.5'', Fin (5 / 2))],
       str_of_float = (\<lambda>x. if x = Fin 0 then ''0.0'' else if x = Fin (9 / 2) then ''4.5''
                            else if x = Fin 7 then ''7.0'' else []),
       int_of_str = map_of [(''1'', 1), (''2'', 2), (''7'', 7), (''189'', 189)] \<rparr>"

text \<open>The variables of a fresh \<^verbatim>\<open>App\<close>, set from \<^verbatim>\<open>DEFAULT_SETTINGS\<close>.\<close>

definition initial_app :: app where
  "initial_app =
     \<lparr> var_start = ''1'', var_mode = ''labels'', var_count = ''189'', var_pages = ''1'',
       var_prefix = ''ASN'', var_zeros = ''7'', var_kind = ''QR'', var_border = False,
       var_off_x = ''0.0'', var_off_y = ''0.0'', var_pitch_dx = ''0.0'', var_pitch_dy = ''0.0'',
       loading_settings = False \<rparr>"

section \<open>Properties of binary64 rounding\<close>

lemma round_half_even_of_int [simp]: "round_half_even (of_int k) = k"
  by (simp add: round_half_even_def)

lemma round_half_even_le:
  assumes "q \<le> of_int k"
  shows "round_half_even q \<le> k"
proof -
  have f: "\<lfloor>q\<rfloor> \<le> k"
    using assms floor_mono [of q "of_int k"] by simp
  have g: "\<lfloor>q\<rfloor> + 1 \<le> k" if "1 / 2 \<le> q - of_int \<lfloor>q\<rfloor>"
  proof -
    have "(of_int \<lfloor>q\<rfloor> :: rat) < of_int k" using that assms by linarith
    then show ?thesis by simp
  qed
  show ?thesis
    using f g by (auto simp: round_half_even_def Let_def)
qed

lemma round_half_even_ge:
  assumes "of_int k \<le> q"
  shows "k \<le> round_half_even q"
proof -
  have f: "k \<le> \<lfloor>q\<rfloor>"
    using assms by (simp add: le_floor_iff)
  show ?thesis
    using f by (auto simp: round_half_even_def Let_def)
qed

lemma powi_nat: "0 \<le> k \<Longrightarrow> (2::rat) powi k = of_int (2 ^ nat k)"
  by (simp add: power_int_def)

lemma expo_bounds:
  assumes "0 < a"
  shows "2 powi (expo a) \<le> a" and "a < 2 powi (expo a + 1)"
proof -
  have both: "2 powi (expo a) \<le> a \<and> a < 2 powi (expo a + 1)"
  proof (cases "1 \<le> a")
    case True
    then have p: "0 < \<lfloor>a\<rfloor>" by simp
    define b where "b = bitlen \<lfloor>a\<rfloor>"
    have b1: "1 \<le> b" using p bitlen_eq_zero_iff [of "\<lfloor>a\<rfloor>"] bitlen_nonneg [of "\<lfloor>a\<rfloor>"]
      unfolding b_def by linarith
    from bitlen_bounds [OF p]
    have lo: "2 ^ nat (b - 1) \<le> \<lfloor>a\<rfloor>" and hi: "\<lfloor>a\<rfloor> < 2 ^ nat b"
      unfolding b_def by simp_all
    have "(of_int (2 ^ nat (b - 1)) :: rat) \<le> of_int \<lfloor>a\<rfloor>"
      using lo by (simp only: of_int_le_iff)
    also have "\<dots> \<le> a" by simp
    finally have "of_int (2 ^ nat (b - 1)) \<le> a" .
    then have l: "2 powi (b - 1) \<le> a"
      using b1 by (simp add: powi_nat)
    have "\<lfloor>a\<rfloor> + 1 \<le> 2 ^ nat b" using hi by simp
    then have "(of_int (\<lfloor>a\<rfloor> + 1) :: rat) \<le> of_int (2 ^ nat b)"
      by (simp only: of_int_le_iff)
    moreover have "a < of_int (\<lfloor>a\<rfloor> + 1)" by linarith
    ultimately have "a < of_int (2 ^ nat b)" by linarith
    then have h: "a < 2 powi b"
      using b1 by (simp add: powi_nat)
    show ?thesis using l h True by (simp add: expo_def b_def)
  next
    case False
    define m where "m = \<lceil>1 / a\<rceil>"
    have inv: "1 < 1 / a" using False assms by simp
    have m2: "2 \<le> m" unfolding m_def using inv by linarith
    then have p: "0 < m - 1" by simp
    define j where "j = bitlen (m - 1)"
    have j1: "1 \<le> j" using p bitlen_eq_zero_iff [of "m - 1"] bitlen_nonneg [of "m - 1"]
      unfolding j_def by linarith
    from bitlen_bounds [OF p]
    have lo: "2 ^ nat (j - 1) \<le> m - 1" and hi: "m - 1 < 2 ^ nat j"
      unfolding j_def by simp_all
    have "m \<le> 2 ^ nat j" using hi by simp
    then have "(of_int m :: rat) \<le> of_int (2 ^ nat j)" by (simp only: of_int_le_iff)
    moreover have "1 / a \<le> of_int m" unfolding m_def by simp
    ultimately have "1 / a \<le> of_int (2 ^ nat j)" by linarith
    then have "1 / a \<le> 2 powi j" using j1 by (simp add: powi_nat)
    moreover have "(0::rat) < 2 powi j" by simp
    ultimately have "1 / 2 powi j \<le> a"
      using assms by (simp add: field_simps)
    then have l: "2 powi (- j) \<le> a"
      by (simp only: power_int_minus_divide)
    have "(of_int (2 ^ nat (j - 1)) :: rat) \<le> of_int (m - 1)"
      using lo by (simp only: of_int_le_iff)
    moreover have "of_int (m - 1) < 1 / a" unfolding m_def by linarith
    ultimately have "of_int (2 ^ nat (j - 1)) < 1 / a" by linarith
    then have "2 powi (j - 1) < 1 / a" using j1 by (simp add: powi_nat)
    moreover have "(0::rat) < 2 powi (j - 1)" by simp
    ultimately have "a < 1 / 2 powi (j - 1)"
      using assms by (simp add: field_simps)
    then have "a < 2 powi (- (j - 1))"
      by (simp only: power_int_minus_divide)
    then have h: "a < 2 powi (- j + 1)" by (simp add: algebra_simps)
    show ?thesis using l h False by (simp add: expo_def j_def m_def)
  qed
  show "2 powi (expo a) \<le> a" using both by simp
  show "a < 2 powi (expo a + 1)" using both by simp
qed

lemma pow2_less_cancel: "(2::rat) powi i < 2 powi j \<Longrightarrow> i < j"
  using power_int_increasing [of j i "2::rat"] by (cases "i < j") auto

lemma expo_unique:
  assumes "2 powi e \<le> a" "a < 2 powi (e + 1)"
  shows "expo a = e"
proof -
  have pos: "0 < a" using assms(1) zero_less_power_int [of "2::rat" e] by linarith
  note b = expo_bounds [OF pos]
  have "(2::rat) powi e < 2 powi (expo a + 1)" using assms(1) b(2) by linarith
  then have 1: "e < expo a + 1" by (rule pow2_less_cancel)
  have "(2::rat) powi (expo a) < 2 powi (e + 1)" using assms(2) b(1) by linarith
  then have 2: "expo a < e + 1" by (rule pow2_less_cancel)
  show ?thesis using 1 2 by linarith
qed

lemma fl_pos_0 [simp]: "fl_pos 0 = 0"
  using round_half_even_of_int [of 0] by (simp add: fl_pos_def)

lemma expo_scaled:
  assumes "0 < m"
  shows "expo (of_int m * 2 powi k) = bitlen m - 1 + k"
proof (rule expo_unique)
  define b where "b = bitlen m"
  have b1: "1 \<le> b" using assms bitlen_eq_zero_iff [of m] bitlen_nonneg [of m]
    unfolding b_def by linarith
  from bitlen_bounds [OF assms]
  have lo: "2 ^ nat (b - 1) \<le> m" and hi: "m < 2 ^ nat b"
    unfolding b_def by simp_all
  have "(of_int (2 ^ nat (b - 1)) :: rat) \<le> of_int m"
    using lo by (simp only: of_int_le_iff)
  then have l: "(2::rat) powi (b - 1) \<le> of_int m"
    using b1 by (simp add: powi_nat)
  have "(of_int m :: rat) < of_int (2 ^ nat b)"
    using hi by (simp only: of_int_less_iff)
  then have h: "(of_int m :: rat) < 2 powi b"
    using b1 by (simp add: powi_nat)
  have "(2::rat) powi (b - 1 + k) = 2 powi (b - 1) * 2 powi k"
    by (simp add: power_int_add)
  also have "\<dots> \<le> of_int m * 2 powi k"
    using l by (simp add: mult_right_mono)
  finally show "2 powi (bitlen m - 1 + k) \<le> rat_of_int m * 2 powi k"
    by (simp add: b_def)
  have "of_int m * (2::rat) powi k < 2 powi b * 2 powi k"
    using h by (simp add: mult_strict_right_mono)
  also have "\<dots> = 2 powi (b - 1 + k + 1)"
    by (simp add: power_int_add)
  finally show "rat_of_int m * 2 powi k < 2 powi (bitlen m - 1 + k + 1)"
    by (simp add: b_def)
qed

lemma bitlen_le_54:
  assumes "0 < m" "m \<le> 2 ^ 53"
  shows "bitlen m \<le> 54" and "bitlen m = 54 \<Longrightarrow> m = 2 ^ 53"
proof -
  from bitlen_bounds [OF assms(1)] have lo: "2 ^ nat (bitlen m - 1) \<le> m" by simp
  then have "(2::int) ^ nat (bitlen m - 1) \<le> 2 ^ 53" using assms(2) by linarith
  then have "nat (bitlen m - 1) \<le> 53"
    using power_le_imp_le_exp [of "2::int" "nat (bitlen m - 1)" 53] by simp
  then show "bitlen m \<le> 54" by linarith
  show "m = 2 ^ 53" if "bitlen m = 54"
    using lo that assms(2) by simp
qed

lemma fl_pos_fixed:
  assumes m: "0 < m" "m \<le> 2 ^ 53" and k: "- 1074 \<le> k"
  shows "fl_pos (of_int m * 2 powi k) = of_int m * 2 powi k"
proof -
  define j where "j = bitlen m - 1"
  define t where "t = max (j + k) (- 1022) - 52"
  have ex: "expo (of_int m * 2 powi k) = j + k"
    using expo_scaled [OF m(1)] by (simp add: j_def)
  have fp: "fl_pos (of_int m * 2 powi k)
      = of_int (round_half_even (of_int m * 2 powi k / 2 powi t)) * 2 powi t"
    by (simp add: fl_pos_def ex t_def Let_def)
  have j53: "j \<le> 53" using bitlen_le_54(1) [OF m] by (simp add: j_def)
  have q: "of_int m * (2::rat) powi k / 2 powi t = of_int m * 2 powi (k - t)"
    by (simp add: power_int_diff)
  show ?thesis
  proof (cases "j = 53")
    case True
    then have m53: "m = 2 ^ 53" using bitlen_le_54(2) [OF m] by (simp add: j_def)
    have tk: "k - t = - 1" using True k by (simp add: t_def)
    have "of_int m * (2::rat) powi (k - t) = of_int (2 ^ 52)"
      by (simp add: m53 tk)
    then have "round_half_even (of_int m * 2 powi k / 2 powi t) = 2 ^ 52"
      by (simp only: q round_half_even_of_int)
    then have "fl_pos (of_int m * 2 powi k) = of_int (2 ^ 52) * 2 powi (k + 1)"
      using fp tk by (simp add: algebra_simps)
    also have "\<dots> = of_int m * 2 powi k"
      by (simp add: m53 power_int_add)
    finally show ?thesis .
  next
    case False
    then have "0 \<le> k - t" using j53 k by (simp add: t_def)
    then have "of_int m * (2::rat) powi (k - t) = of_int (m * 2 ^ nat (k - t))"
      by (simp add: powi_nat)
    then have "round_half_even (of_int m * 2 powi k / 2 powi t) = m * 2 ^ nat (k - t)"
      by (simp only: q round_half_even_of_int)
    then have "fl_pos (of_int m * 2 powi k) = of_int (m * 2 ^ nat (k - t)) * 2 powi t"
      using fp by simp
    also have "\<dots> = of_int m * 2 powi (k - t) * 2 powi t"
      using \<open>0 \<le> k - t\<close> by (simp add: powi_nat)
    also have "\<dots> = of_int m * 2 powi k"
      by (simp add: power_int_diff)
    finally show ?thesis .
  qed
qed

lemma fl_pos_form:
  assumes "0 \<le> a"
  shows "\<exists>m k. fl_pos a = of_int m * 2 powi k \<and> 0 \<le> m \<and> m \<le> 2 ^ 53 \<and> - 1074 \<le> k"
proof (cases "a = 0")
  case True
  then show ?thesis by (intro exI [of _ 0] exI [of _ 0]) simp
next
  case False
  then have pos: "0 < a" using assms by simp
  define e where "e = max (expo a) (- 1022)"
  define t where "t = e - 52"
  define M where "M = round_half_even (a / 2 powi t)"
  have fp: "fl_pos a = of_int M * 2 powi t"
    by (simp add: fl_pos_def M_def t_def e_def Let_def)
  have "0 \<le> a / 2 powi t" using pos by simp
  then have M0: "0 \<le> M" unfolding M_def using round_half_even_ge [of 0] by simp
  have "a < 2 powi (expo a + 1)" using expo_bounds(2) [OF pos] .
  also have "\<dots> \<le> 2 powi (e + 1)"
    by (rule power_int_increasing) (simp_all add: e_def)
  also have "\<dots> = 2 powi 53 * 2 powi t"
    using power_int_add [of "2::rat" 53 t] by (simp add: t_def add.commute)
  finally have "a / 2 powi t < 2 powi 53"
    by (simp add: field_simps)
  then have "a / 2 powi t \<le> of_int (2 ^ 53)" by simp
  then have M53: "M \<le> 2 ^ 53" unfolding M_def by (rule round_half_even_le)
  have "- 1074 \<le> t" by (simp add: t_def e_def)
  then show ?thesis using fp M0 M53 by blast
qed

lemma fl_pos_nonneg: "0 \<le> a \<Longrightarrow> 0 \<le> fl_pos a"
  using fl_pos_form [of a] by auto



lemma fl_of_int_exact:
  assumes "\<bar>n\<bar> \<le> 2 ^ 53"
  shows "fl (of_int n) = Fin (of_int n)"
proof (cases "n = 0")
  case True
  then show ?thesis by (simp add: fl_def)
next
  case False
  then have "0 < \<bar>n\<bar>" by simp
  from fl_pos_fixed [OF this assms, of 0]
  have fp: "fl_pos (of_int \<bar>n\<bar>) = of_int \<bar>n\<bar>" by simp
  have "(of_int \<bar>n\<bar> :: rat) \<le> of_int (2 ^ 53)"
    using assms by (simp only: of_int_le_iff)
  also have "\<dots> < 2 ^ 1024" by simp
  finally have "\<not> (2::rat) ^ 1024 \<le> of_int \<bar>n\<bar>" by simp
  then show ?thesis using False fp
    by (auto simp: fl_def Let_def abs_if split: if_splits)
qed

section \<open>Evaluating the rounding; the page count below \<open>2 ^ 53\<close>\<close>

lemma floor_rat_numeral:
  "\<lfloor>(numeral a :: rat) / numeral b\<rfloor> = numeral a div numeral b"
  using floor_divide_of_int_eq [of "numeral a" "numeral b", where ?'a = rat] by simp

lemma ceiling_rat_numeral:
  "\<lceil>(numeral a :: rat) / numeral b\<rceil> = - (- numeral a div numeral b)"
proof -
  have "\<lceil>(of_int (numeral a) :: rat) / of_int (numeral b)\<rceil> = - \<lfloor>of_int (- numeral a) / (of_int (numeral b) :: rat)\<rfloor>"
    by (simp add: ceiling_def)
  also have "\<dots> = - (- numeral a div numeral b)"
    by (simp only: floor_divide_of_int_eq)
  finally show ?thesis by simp
qed

lemma fl_eval:
  assumes "2 powi e \<le> q" "q < 2 powi (e + 1)" "- 1022 \<le> e"
    and "round_half_even (q / 2 powi (e - 52)) = m"
    and "of_int m * 2 powi (e - 52) = r" "r < 2 ^ 1024"
  shows "fl q = Fin r"
proof -
  have pos: "0 < q" using assms(1) zero_less_power_int [of "2::rat" e] by linarith
  have ex: "expo q = e" using assms(1,2) by (rule expo_unique)
  have "fl_pos q = r"
    using assms(3,4,5) by (simp add: fl_pos_def ex Let_def max_def)
  then show ?thesis using pos assms(6) by (simp add: fl_def Let_def)
qed





lemma pages_big: "math_ceil_truediv 1702360659146047489 189 = Inr 9007199254740992"
proof -
  have "fl (1702360659146047489 / 189) = Fin 9007199254740992"
    by (rule fl_eval [where e = 53 and m = 4503599627370496])
       (simp_all add: round_half_even_def Let_def floor_rat_numeral)
  then show ?thesis
    by (simp add: math_ceil_truediv_def py_truediv_def)
qed

lemma round_half_even_gt_half:
  assumes "of_int J + 1 / 2 < x"
  shows "J + 1 \<le> round_half_even x"
proof -
  have "of_int J \<le> x" using assms by linarith
  then have f: "J \<le> \<lfloor>x\<rfloor>" by (simp add: le_floor_iff)
  show ?thesis
  proof (cases "\<lfloor>x\<rfloor> = J")
    case True
    then have "1 / 2 < x - of_int \<lfloor>x\<rfloor>" using assms by simp
    then show ?thesis using True by (simp add: round_half_even_def Let_def)
  next
    case False
    then have "J + 1 \<le> \<lfloor>x\<rfloor>" using f by linarith
    then show ?thesis by (auto simp: round_half_even_def Let_def)
  qed
qed

lemma fl_ceiling_exact:
  assumes a: "0 < a" "a < 2 ^ 53" and b: "0 < b" "b \<le> 2 ^ 53"
  shows "\<exists>r. fl (of_int a / of_int b) = Fin r \<and> \<lceil>r\<rceil> = \<lceil>(of_int a / of_int b :: rat)\<rceil>"
proof -
  define q :: rat where "q = of_int a / of_int b"
  define e where "e = expo q"
  define t where "t = e - 52"
  define u :: rat where "u = 2 powi t"
  define K where "K = \<lceil>q\<rceil>"
  define M where "M = round_half_even (q / u)"
  have qpos: "0 < q" using a b by (simp add: q_def)
  have bq: "of_int b * q = of_int a" using b by (simp add: q_def)
  have lo: "2 powi e \<le> q" and hi: "q < 2 powi (e + 1)"
    using expo_bounds [OF qpos] by (simp_all add: e_def)
  have "q \<le> of_int a"
  proof -
    have "(1::rat) \<le> of_int b" using b by simp
    then have "q * 1 \<le> q * of_int b" using qpos by (intro mult_left_mono) simp_all
    then show ?thesis using bq by (simp add: mult.commute)
  qed
  also have a53: "rat_of_int a < of_int (2 ^ 53)" using a by (simp only: of_int_less_iff)
  finally have q53: "q < 2 powi 53" by simp
  then have "(2::rat) powi e < 2 powi 53" using lo by linarith
  then have e52: "e \<le> 52" using pow2_less_cancel [of e 53] by simp
  have "(1::rat) \<le> of_int a" using a by simp
  moreover have "(of_int b :: rat) \<le> of_int (2 ^ 53)" using b by (simp only: of_int_le_iff)
  ultimately have "of_int b * 1 \<le> (of_int (2 ^ 53) :: rat) * of_int a"
    using b by (intro mult_mono) simp_all
  then have "of_int b \<le> (2 ^ 53 :: rat) * (of_int b * q)" by (simp add: bq)
  then have "(1::rat) \<le> 2 ^ 53 * q" using b by simp
  then have "2 powi (- 53) \<le> q"
    by (simp add: power_int_minus_divide field_simps)
  then have "(2::rat) powi (- 53) < 2 powi (e + 1)" using hi by linarith
  then have em: "- 54 < e" using pow2_less_cancel [of "- 53" "e + 1"] by simp
  have tn: "t \<le> 0" using e52 by (simp add: t_def)
  have upos: "0 < u" by (simp add: u_def)
  define U where "U = (2::int) ^ nat (- t)"
  have Uu: "of_int U * u = 1"
  proof -
    have "(of_int U :: rat) = 2 powi (- t)" using tn by (simp add: U_def powi_nat)
    then show ?thesis by (simp add: u_def power_int_minus_divide)
  qed
  have inv: "x / u = x * of_int U" for x :: rat
    using Uu upos by (simp add: field_simps)
  have fp: "fl_pos q = of_int M * u"
    using em by (simp add: fl_pos_def M_def u_def t_def e_def Let_def max_def)
  have K1: "q \<le> of_int K" and K2: "of_int K - 1 < q"
    unfolding K_def by linarith+
  have Ka: "K \<le> a"
    using \<open>q \<le> of_int a\<close> by (simp add: K_def ceiling_le_iff)
  \<comment> \<open>upper bound\<close>
  have "q / u \<le> of_int (K * U)"
    using K1 upos Uu by (simp add: inv mult_right_mono U_def)
  then have "M \<le> K * U" unfolding M_def by (rule round_half_even_le)
  then have "(of_int M :: rat) \<le> of_int (K * U)" by (simp only: of_int_le_iff)
  then have "of_int M * u \<le> of_int (K * U) * u" using upos by (simp add: mult_right_mono)
  also have "\<dots> = of_int K" using Uu by (simp add: mult.assoc)
  finally have up: "of_int M * u \<le> of_int K" .
  \<comment> \<open>lower bound\<close>
  have "0 < of_int b * (q - of_int (K - 1))" using K2 b by simp
  then have "(0::rat) < of_int (a - (K - 1) * b)"
    using bq by (simp add: algebra_simps)
  then have "0 < a - (K - 1) * b" by (simp only: of_int_0_less_iff)
  then have "1 \<le> a - (K - 1) * b" by simp
  then have "(1::rat) \<le> of_int (a - (K - 1) * b)" by (simp only: of_int_le_iff of_int_1 [symmetric, where ?'a = rat])
  then have gap: "1 \<le> of_int b * (q - of_int (K - 1))"
    using bq by (simp add: algebra_simps)
  have "of_int b * 2 powi e \<le> of_int b * q" using lo b by (simp add: mult_left_mono)
  also have "\<dots> < 2 powi 53" using bq a53 by simp
  finally have "rat_of_int b * 2 powi e < 2 powi 53" .
  then have "rat_of_int b * (2 powi e * 2 powi (- e)) < 2 powi 53 * 2 powi (- e)"
    by (simp add: mult.assoc [symmetric])
  then have "of_int b < (2::rat) powi (53 - e)"
    by (simp add: power_int_add [symmetric] power_int_diff power_int_minus_divide)
  also have "\<dots> = 2 * of_int U"
  proof -
    have "53 - e = 1 + (- t)" by (simp add: t_def)
    then have "(2::rat) powi (53 - e) = 2 powi (1 + (- t))" by (simp only:)
    also have "\<dots> = 2 * 2 powi (- t)"
      using power_int_add [of "2::rat" 1 "- t"] by simp
    finally have "(2::rat) powi (53 - e) = 2 * 2 powi (- t)" .
    then show ?thesis using tn by (simp add: U_def powi_nat)
  qed
  finally have bU: "of_int b < 2 * (of_int U :: rat)" .
  have Upos: "(0::rat) < of_int U" by (simp add: U_def)
  have "of_int b * (1 / 2) < of_int U * (of_int b * (q - of_int (K - 1)))"
  proof -
    have "of_int b * (1 / 2) < (of_int U :: rat)" using bU by simp
    also have "\<dots> = of_int U * 1" by simp
    also have "\<dots> \<le> of_int U * (of_int b * (q - of_int (K - 1)))"
      using gap Upos by (intro mult_left_mono) simp_all
    finally show ?thesis .
  qed
  then have "of_int b * (1 / 2) < of_int b * (of_int U * (q - of_int (K - 1)))"
    by (simp add: mult.left_commute)
  then have "1 / 2 < of_int U * (q - of_int (K - 1))"
    using b by (simp only: mult_less_cancel_left_pos of_int_0_less_iff)
  then have "of_int ((K - 1) * U) + 1 / 2 < q / u"
    by (simp add: inv algebra_simps)
  then have "(K - 1) * U + 1 \<le> M" unfolding M_def by (rule round_half_even_gt_half)
  then have "(of_int ((K - 1) * U + 1) :: rat) \<le> of_int M" by (simp only: of_int_le_iff)
  then have "of_int ((K - 1) * U + 1) * u \<le> of_int M * u"
    using upos by (simp add: mult_right_mono)
  moreover have "of_int ((K - 1) * U + 1) * u = of_int K - 1 + u"
    using Uu by (simp add: algebra_simps)
  ultimately have low: "of_int K - 1 < of_int M * u" using upos by linarith
  have "of_int M * u \<le> of_int a" using up Ka
    by (meson of_int_le_iff order_trans)
  also have "\<dots> < 2 ^ 1024"
  proof -
    have "(of_int a :: rat) < of_int (2 ^ 53)" using a by (simp only: of_int_less_iff)
    also have "\<dots> < 2 ^ 1024" by simp
    finally show ?thesis .
  qed
  finally have small: "\<not> 2 ^ 1024 \<le> fl_pos q" by (simp add: fp)
  have "fl q = Fin (of_int M * u)"
    using qpos small by (simp add: fl_def Let_def fp)
  moreover have "\<lceil>of_int M * u\<rceil> = K"
    using up low by (simp add: ceiling_unique)
  ultimately show ?thesis by (simp add: q_def K_def)
qed

lemma math_ceil_truediv_exact:
  assumes "0 < a" "a < 2 ^ 53" "0 < b" "b \<le> 2 ^ 53"
  shows "math_ceil_truediv a b = Inr \<lceil>(of_int a / of_int b :: rat)\<rceil>"
  using fl_ceiling_exact [OF assms] assms(3)
  by (auto simp: math_ceil_truediv_def py_truediv_def)

text \<open>The two page counts that the specification gives as examples, for 7 columns and 27 rows.\<close>

lemma pages_189_190:
  "math_ceil_truediv 189 (7 * 27) = Inr 1" "math_ceil_truediv 190 (7 * 27) = Inr 2"
  using math_ceil_truediv_exact [of 189 189] math_ceil_truediv_exact [of 190 189]
  by (simp_all add: ceiling_rat_numeral)

section \<open>Properties of the label text\<close>


lemma dec_digits_length_le: "n < 10 ^ k \<Longrightarrow> 0 < k \<Longrightarrow> length (dec_digits n) \<le> k"
proof (induction k arbitrary: n)
  case 0
  then show ?case by simp
next
  case (Suc k)
  show ?case
  proof (cases "n < 10")
    case True
    then show ?thesis by (subst dec_digits.simps) simp
  next
    case False
    then have k: "0 < k" using Suc.prems by (cases k) simp_all
    have "n div 10 < 10 ^ k" using Suc.prems(1) by (simp add: div_less_iff_less_mult mult.commute)
    from Suc.IH [OF this k] show ?thesis using False by (subst dec_digits.simps) simp
  qed
qed

lemma length_py_str_int:
  "length (py_str_int n) = (if n < 0 then 1 else 0) + length (dec_digits (nat \<bar>n\<bar>))"
  by (simp add: py_str_int_def abs_if)


lemma digits_over_small:
  "\<bar>n\<bar> < 10 ^ k \<Longrightarrow> 0 < k \<Longrightarrow> k \<le> int_max_str_digits lims \<Longrightarrow> \<not> digits_over lims n"
proof -
  assume a: "\<bar>n\<bar> < 10 ^ k" "0 < k" "k \<le> int_max_str_digits lims"
  have "nat \<bar>n\<bar> < 10 ^ k" using a(1) by (simp add: nat_less_iff)
  from dec_digits_length_le [OF this a(2)] a(3) show ?thesis by (simp add: digits_over_def)
qed


lemma format_0d_ok:
  assumes "0 \<le> width" "width \<le> ssize_max lims" "\<not> digits_over lims width"
    "\<not> digits_over lims number" "max (nat width) (length (py_str_int number)) \<le> str_max lims"
  shows "format_0d lims number width
       = Inr ((if number < 0 then ''-'' else [])
              @ replicate (nat width - length (py_str_int number)) CHR ''0''
              @ dec_digits (nat \<bar>number\<bar>))"
  using assms
  by (auto simp: format_0d_def Let_def length_py_str_int split: if_splits)

lemma format_0d_length:
  "format_0d lims number width = Inr s \<Longrightarrow>
   length s = max (nat width) (length (py_str_int number))"
  by (auto simp: format_0d_def Let_def length_py_str_int max_def split: if_splits)


lemma format_0d_nonneg:
  "format_0d lims number width = Inr s \<Longrightarrow> 0 \<le> number \<Longrightarrow>
   s = replicate (nat width - length (py_str_int number)) CHR ''0'' @ py_str_int number"
  by (auto simp: format_0d_def py_str_int_def Let_def split: if_splits)


lemma make_asn_text_Inr:
  "make_asn_text lims prefix number leading_zeros = Inr t \<Longrightarrow>
   \<exists>s. format_0d lims number leading_zeros = Inr s \<and> t = prefix @ s
       \<and> length (prefix @ s) \<le> str_max lims"
  by (auto simp: make_asn_text_def split: sum.splits if_splits)


lemma make_asn_text_nonneg:
  "make_asn_text lims prefix number leading_zeros = Inr t \<Longrightarrow> 0 \<le> number \<Longrightarrow>
   t = padded_text prefix leading_zeros number"
  by (auto simp: padded_text_def dest!: make_asn_text_Inr dest: format_0d_nonneg)

lemma make_asn_text_ok:
  assumes "0 \<le> leading_zeros" "leading_zeros \<le> ssize_max lims"
    "\<not> digits_over lims leading_zeros" "\<not> digits_over lims number"
    "length prefix + max (nat leading_zeros) (length (py_str_int number)) \<le> str_max lims"
  shows "\<exists>t. make_asn_text lims prefix number leading_zeros = Inr t"
proof -
  have m: "max (nat leading_zeros) (length (py_str_int number)) \<le> str_max lims"
    using assms(5) by linarith
  note f = format_0d_ok [OF assms(1-4) m]
  show ?thesis
    using assms(5) format_0d_length [OF f] unfolding make_asn_text_def f
    by simp
qed


text \<open>
  Numbers below \<open>10 ^ 19\<close>, a width up to \<open>2 ^ 31\<close> and a prefix up to \<open>2 ^ 31\<close> characters
  are within the limits of \<open>cpython64\<close>.
\<close>

lemma make_asn_text_cpython64:
  assumes "0 \<le> n" "n < 10 ^ 19" "0 \<le> w" "w \<le> 2 ^ 31" "length prefix \<le> 2 ^ 31"
  shows "make_asn_text cpython64 prefix n w = Inr (padded_text prefix w n)"
proof -
  have w19: "\<bar>w\<bar> < 10 ^ 19" using assms(3,4) by simp
  have 1: "\<not> digits_over cpython64 w"
    by (rule digits_over_small [OF w19]) (simp_all add: cpython64_def)
  have n19: "\<bar>n\<bar> < 10 ^ 19" using assms(1,2) by simp
  have 2: "\<not> digits_over cpython64 n"
    by (rule digits_over_small [OF n19]) (simp_all add: cpython64_def)
  have "nat \<bar>n\<bar> < 10 ^ 19" using n19 by (simp add: nat_less_iff)
  from dec_digits_length_le [OF this] have "length (py_str_int n) \<le> 19"
    using assms(1) by (simp add: length_py_str_int)
  then have 3: "length prefix + max (nat w) (length (py_str_int n)) \<le> str_max cpython64"
    using assms(3-5) by (simp add: cpython64_def nat_le_iff)
  have 4: "w \<le> ssize_max cpython64" using assms(4) by (simp add: cpython64_def)
  from make_asn_text_ok [OF assms(3) 4 1 2 3] obtain t where
    t: "make_asn_text cpython64 prefix n w = Inr t" by blast
  show ?thesis using make_asn_text_nonneg [OF t assms(1)] t by simp
qed









section \<open>The loops of \<open>generate_pdf\<close>\<close>

lemma py_float_of_int_Inr: "py_float_of_int n = Inr d \<Longrightarrow> d = fl (of_int n)"
  by (auto simp: py_float_of_int_def split: double.splits)

lemma py_float_of_int_exact:
  "\<bar>n\<bar> \<le> 2 ^ 53 \<Longrightarrow> py_float_of_int n = Inr (Fin (of_int n))"
  by (simp add: py_float_of_int_def fl_of_int_exact)

lemma label_xy_Inr:
  assumes "label_xy l g i = Inr (x, y)"
  shows "x = origin_x l g (i mod cols l)" and "y = origin_y l g (i div cols l)"
  using assms
  by (auto simp: label_xy_def origin_x_def origin_y_def Let_def
           dest!: py_float_of_int_Inr split: if_splits sum.splits)


lemma label_xy_total:
  assumes "0 < cols l" "cols l \<le> 2 ^ 53" "0 \<le> i" "i \<le> 2 ^ 53"
  shows "label_xy l g i = Inr (origin_x l g (i mod cols l), origin_y l g (i div cols l))"
proof -
  have m: "\<bar>i mod cols l\<bar> \<le> 2 ^ 53"
    using assms pos_mod_bound [of "cols l" i] pos_mod_sign [of "cols l" i] by linarith
  have "0 \<le> i div cols l" using assms by (simp add: pos_imp_zdiv_nonneg_iff)
  moreover have "i div cols l \<le> i" using assms zdiv_mono2 [of i 1 "cols l"] by simp
  ultimately have d: "\<bar>i div cols l\<bar> \<le> 2 ^ 53" using assms by linarith
  show ?thesis
    using assms(1) py_float_of_int_exact [OF m] py_float_of_int_exact [OF d]
      fl_of_int_exact [OF m] fl_of_int_exact [OF d]
    by (simp add: label_xy_def origin_x_def origin_y_def Let_def)
qed

lemma label_loop_Inr:
  "label_loop j is c current = Inr (c', current') \<Longrightarrow>
   c' = c\<lparr> c_current := c_current c @
                 map (\<lambda>(k, i). label_at j (int i) (current + int k)) (enumerate 0 is) \<rparr>
   \<and> current' = current + int (length is)"
proof (induction "is" arbitrary: c current)
  case Nil
  then show ?case by simp
next
  case (Cons i "is")
  from Cons.prems obtain x y t c1 where
    xy: "label_xy (j_layout j) (j_geometry j) (int i) = Inr (x, y)" and
    t: "make_asn_text (j_limits j) (j_prefix j) current (j_leading_zeros j) = Inr t" and
    d: "draw_label (j_library j) c x y (j_layout j) t (j_kind j) (j_draw_border j) = Inr c1" and
    rest: "label_loop j is c1 (current + 1) = Inr (c', current')"
    by (auto split: sum.splits)
  have first: "c1 = c\<lparr> c_current := c_current c @ [label_at j (int i) current] \<rparr>"
    using label_xy_Inr [OF xy] t d
    by (auto simp: draw_label_def label_at_def Let_def split: option.splits)
  have sh: "map (\<lambda>(k, i). label_at j (int i) (current + 1 + int k)) (enumerate 0 is)
      = map (\<lambda>(k, i). label_at j (int i) (current + int k)) (enumerate (Suc 0) is)"
    by (simp add: enumerate_Suc_eq split_def add.left_commute add.commute)
  show ?case
    using Cons.IH [OF rest] first sh by simp
qed


lemma draw_label_draws:
  "\<exists>c'. draw_label libraries_work c x y layout t kind draw_border = Inr c'"
  by (simp add: draw_label_def libraries_work_def Let_def)

lemma showPage_Inr:
  "showPage lib c = Inr c' \<Longrightarrow> c' = c\<lparr> c_pages := c_pages c @ [c_current c], c_current := [] \<rparr>"
  by (auto simp: showPage_def split: option.splits)


lemma showPage_works:
  "showPage libraries_work c = Inr (c\<lparr> c_pages := c_pages c @ [c_current c], c_current := [] \<rparr>)"
  by (simp add: showPage_def libraries_work_def)

lemma enumerate_upt: "enumerate 0 [0..<n] = map (\<lambda>i. (i, i)) [0..<n]"
  by (simp add: enumerate_eq_zip zip_same_conv_map)

lemma label_loop_range_Inr:
  assumes "label_loop j [0..<n] c current = Inr (c', current')"
  shows "c' = c\<lparr> c_current := c_current c @ page_labels j current n \<rparr>"
    and "current' = current + int n"
  using label_loop_Inr [OF assms]
  by (simp_all add: enumerate_upt page_labels_def comp_def)


text \<open>
  The loops run to their end when every text can be made, no call into the libraries
  fails and the layout is in the range where the float arithmetic is exact.
\<close>

lemma label_loop_total:
  assumes "j_library j = libraries_work"
  shows "\<forall>i\<in>set is. \<exists>p. label_xy (j_layout j) (j_geometry j) (int i) = Inr p \<Longrightarrow>
    \<forall>n. current \<le> n \<and> n < current + int (length is) \<longrightarrow>
      (\<exists>t. make_asn_text (j_limits j) (j_prefix j) n (j_leading_zeros j) = Inr t) \<Longrightarrow>
    \<exists>r. label_loop j is c current = Inr r"
proof (induction "is" arbitrary: c current)
  case Nil
  then show ?case by simp
next
  case (Cons i "is")
  from Cons.prems(1) obtain x y where
    xy: "label_xy (j_layout j) (j_geometry j) (int i) = Inr (x, y)" by auto
  from Cons.prems(2) obtain t where
    t: "make_asn_text (j_limits j) (j_prefix j) current (j_leading_zeros j) = Inr t" by auto
  from draw_label_draws obtain c1 where
    c1: "draw_label (j_library j) c x y (j_layout j) t (j_kind j) (j_draw_border j) = Inr c1"
    unfolding assms by blast
  have 1: "\<forall>i\<in>set is. \<exists>p. label_xy (j_layout j) (j_geometry j) (int i) = Inr p"
    using Cons.prems(1) by simp
  have 2: "\<forall>n. current + 1 \<le> n \<and> n < current + 1 + int (length is) \<longrightarrow>
      (\<exists>t. make_asn_text (j_limits j) (j_prefix j) n (j_leading_zeros j) = Inr t)"
    using Cons.prems(2) by simp
  from Cons.IH [OF 1 2, of c1] show ?case
    by (simp add: xy t c1)
qed


lemma page_loop_shape:
  "page_loop j k c current remaining = Inr (c', current', remaining') \<Longrightarrow> c_current c = [] \<Longrightarrow>
   \<exists>ps. c' = c\<lparr> c_pages := c_pages c @ ps \<rparr> \<and> length ps = k
        \<and> (\<forall>pg\<in>set ps. \<exists>s n. pg = page_labels j s n)"
proof (induction k arbitrary: c current remaining)
  case 0
  then show ?case by simp
next
  case (Suc k)
  define n where "n = min remaining (labels_per_page (j_layout j))"
  from Suc.prems(1) obtain c1 current1 c2 where
    inner: "label_loop j [0..<nat n] c current = Inr (c1, current1)" and
    show_page: "showPage (j_library j) c1 = Inr c2" and
    rest: "page_loop j k c2 current1 (remaining - n) = Inr (c', current', remaining')"
    by (auto simp: Let_def n_def split: sum.splits)
  have c1: "c1 = c\<lparr> c_current := page_labels j current (nat n) \<rparr>"
    using label_loop_range_Inr(1) [OF inner] Suc.prems(2) by simp
  have sp: "c2 = c\<lparr> c_pages := c_pages c @ [page_labels j current (nat n)] \<rparr>"
    using Suc.prems(2) showPage_Inr [OF show_page] by (simp add: c1)
  have e: "c_current c2 = []" using showPage_Inr [OF show_page] by simp
  from Suc.IH [OF rest e] obtain ps where
    ps: "c' = c2\<lparr> c_pages := c_pages c2 @ ps \<rparr>" "length ps = k"
        "\<forall>pg\<in>set ps. \<exists>s n. pg = page_labels j s n"
    by blast
  show ?case
  proof (intro exI [of _ "page_labels j current (nat n) # ps"] conjI)
    show "c' = c\<lparr> c_pages := c_pages c @ page_labels j current (nat n) # ps \<rparr>"
      using ps(1) by (simp add: sp)
    show "length (page_labels j current (nat n) # ps) = Suc k" using ps(2) by simp
    show "\<forall>pg\<in>set (page_labels j current (nat n) # ps). \<exists>s n. pg = page_labels j s n"
      using ps(3) by auto
  qed
qed

lemma page_at_0:
  "0 \<le> count \<Longrightarrow>
   page_at j start count 0 = page_labels j start (nat (min count (labels_per_page (j_layout j))))"
  by (simp add: page_at_def Let_def max_def)

lemma page_at_Suc:
  assumes "0 < labels_per_page (j_layout j)" "0 \<le> count"
  shows "page_at j start count (Suc p)
      = page_at j (start + min count (labels_per_page (j_layout j)))
                  (count - min count (labels_per_page (j_layout j))) p"
proof -
  define lpp where "lpp = labels_per_page (j_layout j)"
  define q where "q = int p * lpp"
  have q0: "0 \<le> q" using assms(1) by (simp add: q_def lpp_def)
  have s: "int (Suc p) * lpp = q + lpp" by (simp add: q_def algebra_simps)
  have 1: "start + min (q + lpp) count = start + min count lpp + min q (count - min count lpp)"
    using q0 assms by (auto simp: min_def lpp_def)
  have 2: "min (max (count - (q + lpp)) 0) lpp = min (max (count - min count lpp - q) 0) lpp"
    using q0 assms by (auto simp: min_def max_def lpp_def)
  show ?thesis
    unfolding page_at_def Let_def lpp_def [symmetric] s q_def [symmetric]
    using 1 2 by (simp add: add.assoc)
qed

lemma page_loop_Inr:
  assumes "0 < labels_per_page (j_layout j)"
  shows "page_loop j k c current remaining = Inr (c', current', remaining') \<Longrightarrow>
   c_current c = [] \<Longrightarrow> 0 \<le> remaining \<Longrightarrow>
   c' = c\<lparr> c_pages := c_pages c @ map (page_at j current remaining) [0..<k] \<rparr>
   \<and> current' = current + min (int k * labels_per_page (j_layout j)) remaining
   \<and> remaining' = max (remaining - int k * labels_per_page (j_layout j)) 0"
proof (induction k arbitrary: c current remaining)
  case 0
  then show ?case by simp
next
  case (Suc k)
  define lpp where "lpp = labels_per_page (j_layout j)"
  define n where "n = min remaining lpp"
  have lpp: "0 < lpp" using assms by (simp add: lpp_def)
  have n0: "0 \<le> n" "n \<le> remaining" using Suc.prems(3) lpp by (simp_all add: n_def)
  from Suc.prems(1) obtain c1 current1 c2 where
    inner: "label_loop j [0..<nat n] c current = Inr (c1, current1)" and
    show_page: "showPage (j_library j) c1 = Inr c2" and
    rest: "page_loop j k c2 current1 (remaining - n) = Inr (c', current', remaining')"
    by (auto simp: Let_def n_def lpp_def split: sum.splits)
  have c1: "c1 = c\<lparr> c_current := page_labels j current (nat n) \<rparr>"
    using label_loop_range_Inr(1) [OF inner] Suc.prems(2) by simp
  have cur1: "current1 = current + n"
    using label_loop_range_Inr(2) [OF inner] n0 by simp
  have sp: "c2 = c\<lparr> c_pages := c_pages c @ [page_labels j current (nat n)] \<rparr>"
    using Suc.prems(2) showPage_Inr [OF show_page] by (simp add: c1)
  have e: "c_current c2 = []" using showPage_Inr [OF show_page] by simp
  have r: "0 \<le> remaining - n" using n0 by simp
  note ih = Suc.IH [OF rest e r]
  have pages: "map (page_at j current remaining) [0..<Suc k]
      = page_labels j current (nat n) # map (page_at j current1 (remaining - n)) [0..<k]"
    using page_at_0 [OF Suc.prems(3), of j current] page_at_Suc [OF assms Suc.prems(3), of current]
    by (simp only: map_upt_Suc) (simp add: cur1 n_def lpp_def)
  define q where "q = int k * lpp"
  have q0: "0 \<le> q" using lpp by (simp add: q_def)
  have s: "int (Suc k) * lpp = q + lpp" by (simp add: q_def algebra_simps)
  have a1: "current1 + min q (remaining - n) = current + min (q + lpp) remaining"
    using q0 lpp Suc.prems(3) by (auto simp: cur1 n_def min_def)
  have a2: "max (remaining - n - q) 0 = max (remaining - (q + lpp)) 0"
    using q0 lpp Suc.prems(3) by (auto simp: n_def min_def max_def)
  show ?case
    using ih pages a1 a2
    unfolding lpp_def [symmetric] s q_def [symmetric]
    by (simp add: sp)
qed

lemma page_loop_total:
  assumes "j_library j = libraries_work" "0 < cols (j_layout j)"
    "cols (j_layout j) \<le> 2 ^ 53" "0 < labels_per_page (j_layout j)"
    "labels_per_page (j_layout j) \<le> 2 ^ 53"
  shows "0 \<le> remaining \<Longrightarrow>
    \<forall>n. current \<le> n \<and> n < current + remaining \<longrightarrow>
      (\<exists>t. make_asn_text (j_limits j) (j_prefix j) n (j_leading_zeros j) = Inr t) \<Longrightarrow>
    \<exists>r. page_loop j k c current remaining = Inr r"
proof (induction k arbitrary: c current remaining)
  case 0
  then show ?case by simp
next
  case (Suc k)
  define n where "n = min remaining (labels_per_page (j_layout j))"
  have n0: "0 \<le> n" "n \<le> remaining" using Suc.prems(1) assms(4) by (simp_all add: n_def)
  have xy: "\<forall>i\<in>set [0..<nat n]. \<exists>p. label_xy (j_layout j) (j_geometry j) (int i) = Inr p"
  proof
    fix i assume "i \<in> set [0..<nat n]"
    then have "int i \<le> 2 ^ 53" using assms(5) by (simp add: n_def)
    then show "\<exists>p. label_xy (j_layout j) (j_geometry j) (int i) = Inr p"
      using label_xy_total [OF assms(2,3), of "int i"] by simp
  qed
  have tx: "\<forall>m. current \<le> m \<and> m < current + int (length [0..<nat n]) \<longrightarrow>
      (\<exists>t. make_asn_text (j_limits j) (j_prefix j) m (j_leading_zeros j) = Inr t)"
    using Suc.prems(2) n0 by simp
  from label_loop_total [OF assms(1) xy tx, of c]
  obtain c1 current1 where
    inner: "label_loop j [0..<nat n] c current = Inr (c1, current1)"
    by auto
  have cur1: "current1 = current + n"
    using label_loop_range_Inr(2) [OF inner] n0 by simp
  have r: "0 \<le> remaining - n" using n0 by simp
  have tx': "\<forall>m. current1 \<le> m \<and> m < current1 + (remaining - n) \<longrightarrow>
      (\<exists>t. make_asn_text (j_limits j) (j_prefix j) m (j_leading_zeros j) = Inr t)"
    using Suc.prems(2) n0 by (simp add: cur1)
  from Suc.IH [OF r tx'] show ?case
    by (simp add: Let_def n_def [symmetric] inner assms(1) showPage_works)
qed

lemma fl_nonneg: "0 \<le> q \<Longrightarrow> fl q = Fin r \<Longrightarrow> 0 \<le> r"
  using fl_pos_nonneg [of "\<bar>q\<bar>"]
  by (auto simp: fl_def Let_def split: if_splits)

lemma math_ceil_truediv_nonneg:
  assumes "0 \<le> a" "0 < b" "math_ceil_truediv a b = Inr pages"
  shows "0 \<le> pages"
proof -
  obtain r where r: "fl (of_int a / of_int b) = Fin r" and p: "pages = \<lceil>r\<rceil>"
    using assms by (auto simp: math_ceil_truediv_def py_truediv_def split: double.splits if_splits)
  have "(0::rat) \<le> of_int a / of_int b" using assms by simp
  from fl_nonneg [OF this r] show ?thesis by (simp add: p)
qed


lemma generate_pdf_valid:
  assumes valid: "0 < count" "0 < start_number" "0 \<le> leading_zeros" "prefix \<noteq> []"
    and layout: "0 < cols layout" "0 < rows layout" "labels_per_page layout \<le> 2 ^ 53"
    and pages: "math_ceil_truediv count (labels_per_page layout) = Inr pages"
    and texts: "\<forall>n. start_number \<le> n \<and> n < start_number + count \<longrightarrow>
                  (\<exists>t. make_asn_text lims prefix n leading_zeros = Inr t)"
  shows "generate_pdf lims libraries_work fs output_path start_number count prefix
           leading_zeros kind layout draw_border offset_x_mm offset_y_mm pitch_dx_mm pitch_dy_mm
         = (Inr (pages, start_number + min (pages * labels_per_page layout) count),
            fs(output_path \<mapsto>
                 map (page_at (make_job lims libraries_work prefix leading_zeros kind layout
                                 draw_border offset_x_mm offset_y_mm pitch_dx_mm pitch_dy_mm)
                        start_number count)
                     [0..<nat pages]))"
proof -
  define j where "j = make_job lims libraries_work prefix leading_zeros kind layout draw_border
                        offset_x_mm offset_y_mm pitch_dx_mm pitch_dy_mm"
  define c0 where "c0 = \<lparr> c_filename = output_path, c_pages = [], c_current = [] \<rparr>"
  have cv: "Canvas libraries_work output_path = Inr c0"
    by (simp add: Canvas_def libraries_work_def c0_def)
  have jl: "j_layout j = layout" and jz: "j_leading_zeros j = leading_zeros"
    and jp: "j_prefix j = prefix" and jm: "j_limits j = lims"
    and jb: "j_library j = libraries_work"
    by (simp_all add: j_def make_job_def)
  have lpp: "0 < labels_per_page layout"
    using layout(1,2) by (simp add: labels_per_page_def)
  have "cols layout * 1 \<le> cols layout * rows layout"
    using layout(1,2) by (intro mult_left_mono) simp_all
  then have c53: "cols layout \<le> 2 ^ 53"
    using layout(3) by (simp add: labels_per_page_def)
  have p0: "0 \<le> pages"
    using math_ceil_truediv_nonneg [OF _ lpp pages] valid(1) by simp
  have "\<exists>r. page_loop j (nat pages) c0 start_number count = Inr r"
    by (rule page_loop_total) (use valid(1) layout(1,3) c53 lpp texts in
        \<open>simp_all add: jl jz jp jm jb\<close>)
  then obtain c current remaining where
    run: "page_loop j (nat pages) c0 start_number count = Inr (c, current, remaining)"
    by auto
  have e: "c_current c0 = []" by (simp add: c0_def)
  have "0 < labels_per_page (j_layout j)" using lpp by (simp add: jl)
  from page_loop_Inr [OF this run e] valid(1) p0
  have c: "c = c0\<lparr> c_pages := map (page_at j start_number count) [0..<nat pages] \<rparr>"
    and cur: "current = start_number + min (pages * labels_per_page layout) count"
    by (simp_all add: jl c0_def)
  have sv: "save libraries_work c fs
      = (None, fs(output_path \<mapsto> map (page_at j start_number count) [0..<nat pages]))"
    by (simp add: c save_def c0_def libraries_work_def)
  show ?thesis
    using valid pages run
    unfolding generate_pdf_def j_def [symmetric]
    by (simp add: cur sv cv)
qed

section \<open>Placement, calibration and validation\<close>

lemma AVERY_simps [simp]:
  "cols AVERY_L4731 = 7" "rows AVERY_L4731 = 27" "labels_per_page AVERY_L4731 = 189"
  by (simp_all add: AVERY_L4731_def labels_per_page_def)



lemma generate_pdf_Inr:
  assumes "generate_pdf lims lib fs output_path start_number count prefix leading_zeros kind layout
             draw_border offset_x_mm offset_y_mm pitch_dx_mm pitch_dy_mm = (Inr res, fs')"
  shows "\<exists>doc. fs' = fs(output_path \<mapsto> doc)
           \<and> (\<forall>pg\<in>set doc. \<exists>s n. pg = page_labels (make_job lims lib prefix leading_zeros kind layout
                  draw_border offset_x_mm offset_y_mm pitch_dx_mm pitch_dy_mm) s n)"
proof -
  define j where "j = make_job lims lib prefix leading_zeros kind layout draw_border
                        offset_x_mm offset_y_mm pitch_dx_mm pitch_dy_mm"
  from assms obtain pages c0 c current remaining where
    cv: "Canvas lib output_path = Inr c0" and
    run: "page_loop j (nat pages) c0 start_number count = Inr (c, current, remaining)" and
    fs': "save lib c fs = (None, fs')"
    unfolding generate_pdf_def j_def [symmetric]
    by (auto split: if_splits sum.splits prod.splits option.splits)
  have c0: "c0 = \<lparr> c_filename = output_path, c_pages = [], c_current = [] \<rparr>"
    using cv by (auto simp: Canvas_def split: option.splits)
  have e: "c_current c0 = []" by (simp add: c0)
  from page_loop_shape [OF run e] obtain ps where
    ps: "c = c0\<lparr> c_pages := c_pages c0 @ ps \<rparr>"
        "\<forall>pg\<in>set ps. \<exists>s n. pg = page_labels j s n"
    by blast
  have "fs' = fs(output_path \<mapsto> ps)"
    using fs' by (auto simp: ps(1) save_def c0 split: option.splits)
  then show ?thesis using ps(2) unfolding j_def by blast
qed

lemma page_labels_nth:
  "i < length (page_labels j s n) \<Longrightarrow> page_labels j s n ! i = label_at j (int i) (s + int i)"
  by (simp add: page_labels_def)

lemma length_page_labels [simp]: "length (page_labels j s n) = n"
  by (simp add: page_labels_def)

text \<open>
  C4. Whenever \<open>generate_pdf\<close> returns (whatever the limits of the interpreter are and
  whichever calls the libraries refuse), the file it wrote holds, for every page \<open>p\<close> and
  every index \<open>i\<close> on that page, a label rectangle whose bottom-left origin is
  \<open>x = margin_left + col * (pitch_x + pitch_dx_mm * mm) + offset_x_mm * mm\<close> and
  \<open>y = page_h - margin_top - label_h - row * (pitch_y + pitch_dy_mm * mm) + offset_y_mm * mm\<close>
  with \<open>row = i div cols\<close>, \<open>col = i mod cols\<close> and \<open>page_h\<close> the height of A4, each
  operation being the float operation of the code in the code's order.
\<close>

theorem placement_origin:
  assumes "generate_pdf lims lib fs output_path start_number count prefix leading_zeros kind layout
             draw_border offset_x_mm offset_y_mm pitch_dx_mm pitch_dy_mm = (Inr res, fs')"
  shows "\<exists>doc. fs' output_path = Some doc \<and>
          (\<forall>p i. p < length doc \<and> i < length (doc ! p) \<longrightarrow>
             lc_x (doc ! p ! i) =
               fadd (fadd (margin_left layout)
                          (fmul (fl (of_int (int i mod cols layout)))
                                (fadd (pitch_x layout) (fmul pitch_dx_mm mm))))
                    (fmul offset_x_mm mm)
           \<and> lc_y (doc ! p ! i) =
               fadd (fsub (fsub (fsub (snd A4) (margin_top layout)) (label_h layout))
                          (fmul (fl (of_int (int i div cols layout)))
                                (fadd (pitch_y layout) (fmul pitch_dy_mm mm))))
                    (fmul offset_y_mm mm))"
proof -
  define j where "j = make_job lims lib prefix leading_zeros kind layout draw_border
                        offset_x_mm offset_y_mm pitch_dx_mm pitch_dy_mm"
  from generate_pdf_Inr [OF assms] obtain doc where
    doc: "fs' = fs(output_path \<mapsto> doc)" "\<forall>pg\<in>set doc. \<exists>s n. pg = page_labels j s n"
    unfolding j_def by blast
  have "lc_x (doc ! p ! i) =
               fadd (fadd (margin_left layout)
                          (fmul (fl (of_int (int i mod cols layout)))
                                (fadd (pitch_x layout) (fmul pitch_dx_mm mm))))
                    (fmul offset_x_mm mm)
           \<and> lc_y (doc ! p ! i) =
               fadd (fsub (fsub (fsub (snd A4) (margin_top layout)) (label_h layout))
                          (fmul (fl (of_int (int i div cols layout)))
                                (fadd (pitch_y layout) (fmul pitch_dy_mm mm))))
                    (fmul offset_y_mm mm)"
    if "p < length doc" "i < length (doc ! p)" for p i
  proof -
    from that(1) doc(2) obtain s n where pg: "doc ! p = page_labels j s n"
      using nth_mem by blast
    have "doc ! p ! i = label_at j (int i) (s + int i)"
      using that(2) page_labels_nth unfolding pg by simp
    then show ?thesis
      by (simp add: label_at_def origin_x_def origin_y_def j_def make_job_def
            effective_geometry_def)
  qed
  then show ?thesis using doc(1) by auto
qed

lemma small_run:
  "generate_pdf cpython64 libraries_work Map.empty ''labels.pdf'' 1 2 ''ASN'' 7 QR AVERY_L4731 False ox oy pdx pdy
   = (Inr (1, 3),
      [''labels.pdf'' \<mapsto>
         [page_labels (make_job cpython64 libraries_work ''ASN'' 7 QR AVERY_L4731 False ox oy pdx pdy) 1 2]])"
proof -
  have p: "math_ceil_truediv 2 (labels_per_page AVERY_L4731) = Inr 1"
    using math_ceil_truediv_exact [of 2 189] by (simp add: ceiling_rat_numeral)
  have "page_at (make_job cpython64 libraries_work ''ASN'' 7 QR AVERY_L4731 False ox oy pdx pdy) 1 2 0
      = page_labels (make_job cpython64 libraries_work ''ASN'' 7 QR AVERY_L4731 False ox oy pdx pdy) 1 2"
    by (simp add: page_at_def make_job_def Let_def)
  moreover have "generate_pdf cpython64 libraries_work Map.empty ''labels.pdf'' 1 2 ''ASN'' 7 QR
        AVERY_L4731 False ox oy pdx pdy
      = (Inr (1, 1 + min (1 * labels_per_page AVERY_L4731) 2),
         [''labels.pdf'' \<mapsto>
            map (page_at (make_job cpython64 libraries_work ''ASN'' 7 QR AVERY_L4731 False
                            ox oy pdx pdy) 1 2)
                [0..<nat 1]])"
  proof (rule generate_pdf_valid [OF _ _ _ _ _ _ _ p])
    show "\<forall>n. 1 \<le> n \<and> n < 1 + 2 \<longrightarrow> (\<exists>t. make_asn_text cpython64 ''ASN'' n 7 = Inr t)"
      by (simp add: make_asn_text_cpython64)
  qed simp_all
  ultimately show ?thesis by simp
qed

theorem placement_origin_witness:
  "\<exists>doc. snd (generate_pdf cpython64 libraries_work Map.empty ''labels.pdf'' 1 2 ''ASN'' 7 QR AVERY_L4731 False
                 (Fin (- 9 / 2)) (Fin 7) (fl (6 / 5)) (fl (21 / 50))) ''labels.pdf'' = Some doc
     \<and> length doc = 1 \<and> length (doc ! 0) = 2
     \<and> lc_x (doc ! 0 ! 1) =
          fadd (fadd (margin_left AVERY_L4731)
                     (fmul (fl (of_int (int 1 mod cols AVERY_L4731)))
                           (fadd (pitch_x AVERY_L4731) (fmul (fl (6 / 5)) mm))))
               (fmul (Fin (- 9 / 2)) mm)
     \<and> lc_y (doc ! 0 ! 1) =
          fadd (fsub (fsub (fsub (snd A4) (margin_top AVERY_L4731)) (label_h AVERY_L4731))
                     (fmul (fl (of_int (int 1 div cols AVERY_L4731)))
                           (fadd (pitch_y AVERY_L4731) (fmul (fl (21 / 50)) mm))))
               (fmul (Fin 7) mm)"
proof -
  note run = small_run [of "Fin (- 9 / 2)" "Fin 7" "fl (6 / 5)" "fl (21 / 50)"]
  from placement_origin [OF run] obtain doc where
    d: "[''labels.pdf'' \<mapsto>
         [page_labels (make_job cpython64 libraries_work ''ASN'' 7 QR AVERY_L4731 False
            (Fin (- 9 / 2)) (Fin 7) (fl (6 / 5)) (fl (21 / 50))) 1 2]] ''labels.pdf'' = Some doc"
    and f: "\<And>p i. p < length doc \<and> i < length (doc ! p) \<longrightarrow>
             lc_x (doc ! p ! i) =
               fadd (fadd (margin_left AVERY_L4731)
                          (fmul (fl (of_int (int i mod cols AVERY_L4731)))
                                (fadd (pitch_x AVERY_L4731) (fmul (fl (6 / 5)) mm))))
                    (fmul (Fin (- 9 / 2)) mm)
           \<and> lc_y (doc ! p ! i) =
               fadd (fsub (fsub (fsub (snd A4) (margin_top AVERY_L4731)) (label_h AVERY_L4731))
                          (fmul (fl (of_int (int i div cols AVERY_L4731)))
                                (fadd (pitch_y AVERY_L4731) (fmul (fl (21 / 50)) mm))))
                    (fmul (Fin 7) mm)"
    by blast
  have doc: "doc = [page_labels (make_job cpython64 libraries_work ''ASN'' 7 QR AVERY_L4731 False
            (Fin (- 9 / 2)) (Fin 7) (fl (6 / 5)) (fl (21 / 50))) 1 2]"
    using d by simp
  have l: "length doc = 1" "length (doc ! 0) = 2" by (simp_all add: doc)
  from f [of 0 1] l have
    "lc_x (doc ! 0 ! 1) =
               fadd (fadd (margin_left AVERY_L4731)
                          (fmul (fl (of_int (int 1 mod cols AVERY_L4731)))
                                (fadd (pitch_x AVERY_L4731) (fmul (fl (6 / 5)) mm))))
                    (fmul (Fin (- 9 / 2)) mm)
           \<and> lc_y (doc ! 0 ! 1) =
               fadd (fsub (fsub (fsub (snd A4) (margin_top AVERY_L4731)) (label_h AVERY_L4731))
                          (fmul (fl (of_int (int 1 div cols AVERY_L4731)))
                                (fadd (pitch_y AVERY_L4731) (fmul (fl (21 / 50)) mm))))
                    (fmul (Fin 7) mm)"
    by simp
  then show ?thesis
    using l d unfolding run snd_conv by blast
qed









section \<open>Numbering and page count\<close>

lemma label_at_text:
  "make_asn_text (j_limits j) (j_prefix j) n (j_leading_zeros j) = Inr t \<Longrightarrow> 0 \<le> n \<Longrightarrow>
   lc_text (label_at j i n) = padded_text (j_prefix j) (j_leading_zeros j) n"
  using make_asn_text_nonneg [of "j_limits j" "j_prefix j" n "j_leading_zeros j" t]
  by (simp add: label_at_def)

lemma page_labels_texts:
  assumes "\<forall>m. s \<le> m \<and> m < s + int n \<longrightarrow>
             (\<exists>t. make_asn_text (j_limits j) (j_prefix j) m (j_leading_zeros j) = Inr t)"
    and "0 \<le> s"
  shows "map lc_text (page_labels j s n)
       = map (\<lambda>m. padded_text (j_prefix j) (j_leading_zeros j) (s + int m)) [0..<n]"
proof -
  have "lc_text (label_at j (int m) (s + int m))
      = padded_text (j_prefix j) (j_leading_zeros j) (s + int m)" if "m < n" for m
  proof -
    from assms(1) [rule_format, of "s + int m"] that obtain t where
      t: "make_asn_text (j_limits j) (j_prefix j) (s + int m) (j_leading_zeros j) = Inr t"
      by auto
    have "0 \<le> s + int m" using assms(2) by simp
    with t show ?thesis by (rule label_at_text)
  qed
  then show ?thesis by (simp add: page_labels_def)
qed

lemma map_upt_append:
  "map f [0..<a] @ map (\<lambda>m. f (a + m)) [0..<b] = map f [0..<a + b]"
proof -
  have "map (\<lambda>m. f (a + m)) [0..<b] = map f (map (\<lambda>m. m + a) [0..<b])"
    by (simp add: comp_def add.commute)
  also have "\<dots> = map f [a..<a + b]"
    by (simp only: map_add_upt add.commute)
  finally show ?thesis
    by (simp add: upt_add_eq_append [of 0 a b, simplified] del: map_append flip: map_append)
qed

lemma pages_texts:
  assumes lpp: "0 < labels_per_page (j_layout j)" and c: "0 \<le> count"
    and z: "\<forall>m. start \<le> m \<and> m < start + count \<longrightarrow>
              (\<exists>t. make_asn_text (j_limits j) (j_prefix j) m (j_leading_zeros j) = Inr t)"
    and s: "0 \<le> start"
  shows "map lc_text (concat (map (page_at j start count) [0..<k]))
       = map (\<lambda>m. padded_text (j_prefix j) (j_leading_zeros j) (start + int m))
           [0..<nat (min (int k * labels_per_page (j_layout j)) count)]"
proof (induction k)
  case 0
  then show ?case by simp
next
  case (Suc k)
  define lpp where "lpp = labels_per_page (j_layout j)"
  define q where "q = int k * lpp"
  define a where "a = nat (min q count)"
  define b where "b = nat (min (max (count - q) 0) lpp)"
  have q0: "0 \<le> q" using lpp by (simp add: q_def lpp_def)
  have sq: "int (Suc k) * lpp = q + lpp" by (simp add: q_def algebra_simps)
  have ab: "a + b = nat (min (q + lpp) count)"
    using q0 lpp c by (auto simp: a_def b_def lpp_def min_def max_def)
  have ia: "int a = min q count" using q0 c by (simp add: a_def)
  have ib: "int b \<le> max (count - q) 0" using lpp by (simp add: b_def lpp_def)
  have zb: "\<forall>m. start + min q count \<le> m \<and> m < start + min q count + int b \<longrightarrow>
              (\<exists>t. make_asn_text (j_limits j) (j_prefix j) m (j_leading_zeros j) = Inr t)"
  proof (intro allI impI)
    fix m assume m: "start + min q count \<le> m \<and> m < start + min q count + int b"
    then have "start \<le> m \<and> m < start + count" using ib q0 c
      by (auto simp: min_def max_def split: if_splits)
    then show "\<exists>t. make_asn_text (j_limits j) (j_prefix j) m (j_leading_zeros j) = Inr t"
      using z by blast
  qed
  have pg: "map lc_text (page_at j start count k)
      = map (\<lambda>m. padded_text (j_prefix j) (j_leading_zeros j) (start + int (a + m))) [0..<b]"
    unfolding page_at_def Let_def lpp_def [symmetric] q_def [symmetric] b_def [symmetric]
    using page_labels_texts [OF zb] s q0 c
    by (simp add: ia add.assoc)
  show ?case
    using Suc.IH pg
      map_upt_append [of "\<lambda>m. padded_text (j_prefix j) (j_leading_zeros j) (start + int m)" a b]
    unfolding lpp_def [symmetric] sq q_def [symmetric] a_def [symmetric] ab [symmetric]
    by simp
qed

lemma AVERY_job [simp]:
  "j_layout (make_job lims lib prefix leading_zeros kind layout draw_border ox oy pdx pdy)
     = layout"
  "j_prefix (make_job lims lib prefix leading_zeros kind layout draw_border ox oy pdx pdy)
     = prefix"
  "j_leading_zeros (make_job lims lib prefix leading_zeros kind layout draw_border ox oy pdx pdy)
     = leading_zeros"
  "j_limits (make_job lims lib prefix leading_zeros kind layout draw_border ox oy pdx pdy)
     = lims"
  "j_library (make_job lims lib prefix leading_zeros kind layout draw_border ox oy pdx pdy)
     = lib"
  by (simp_all add: make_job_def)

lemma ceiling_times_ge:
  assumes "0 < b"
  shows "a \<le> \<lceil>(of_int a / of_int b :: rat)\<rceil> * b"
proof -
  define K where "K = \<lceil>(of_int a / of_int b :: rat)\<rceil>"
  have "(of_int a / of_int b :: rat) \<le> of_int K"
    unfolding K_def by (rule le_of_int_ceiling)
  then have "(of_int a :: rat) \<le> of_int K * of_int b"
    using assms by (simp add: pos_divide_le_eq)
  then have "(of_int a :: rat) \<le> of_int \<lceil>(of_int a / of_int b :: rat)\<rceil> * of_int b"
    by (simp only: K_def)
  then have "(of_int a :: rat) \<le> of_int (\<lceil>(of_int a / of_int b :: rat)\<rceil> * b)"
    by simp
  then show ?thesis by (simp only: of_int_le_iff)
qed

text \<open>
  For a valid input with fewer than \<open>2 ^ 53\<close> labels (and a layout of at most \<open>2 ^ 53\<close>
  labels per page) the float quotient is exact enough: when every text can be made and
  no call into the libraries fails, \<open>generate_pdf\<close> returns \<open>ceil(count / labels_per_page)\<close>
  pages and the next number \<open>start_number + count\<close>, and the texts of the labels it
  draws are, in order, those of the \<open>count\<close> numbers from \<open>start_number\<close> on.
\<close>

lemma generate_pdf_small:
  assumes valid: "0 < count" "0 < start_number" "0 \<le> leading_zeros" "prefix \<noteq> []"
    and layout: "0 < cols layout" "0 < rows layout" "labels_per_page layout \<le> 2 ^ 53"
    and small: "count < 2 ^ 53"
    and texts: "\<forall>n. start_number \<le> n \<and> n < start_number + count \<longrightarrow>
                  (\<exists>t. make_asn_text lims prefix n leading_zeros = Inr t)"
  shows "\<exists>doc. generate_pdf lims libraries_work fs output_path start_number count prefix
           leading_zeros kind layout draw_border offset_x_mm offset_y_mm pitch_dx_mm pitch_dy_mm
         = (Inr (\<lceil>(of_int count / of_int (labels_per_page layout) :: rat)\<rceil>,
                 start_number + count),
            fs(output_path \<mapsto> doc))
       \<and> int (length doc) = \<lceil>(of_int count / of_int (labels_per_page layout) :: rat)\<rceil>
       \<and> map lc_text (concat doc)
         = map (\<lambda>m. padded_text prefix leading_zeros (start_number + int m)) [0..<nat count]"
proof -
  define j where "j = make_job lims libraries_work prefix leading_zeros kind layout draw_border
                  offset_x_mm offset_y_mm pitch_dx_mm pitch_dy_mm"
  define pages where "pages = \<lceil>(of_int count / of_int (labels_per_page layout) :: rat)\<rceil>"
  define doc where "doc = map (page_at j start_number count) [0..<nat pages]"
  have lpp: "0 < labels_per_page layout"
    using layout(1,2) by (simp add: labels_per_page_def)
  have p: "math_ceil_truediv count (labels_per_page layout) = Inr pages"
    unfolding pages_def using valid(1) small lpp layout(3) by (rule math_ceil_truediv_exact)
  have ge: "count \<le> pages * labels_per_page layout"
    unfolding pages_def using lpp by (rule ceiling_times_ge)
  have p0: "0 \<le> pages"
    using math_ceil_truediv_nonneg [OF _ lpp p] valid(1) by simp
  have 1: "generate_pdf lims libraries_work fs output_path start_number count prefix
           leading_zeros kind layout draw_border offset_x_mm offset_y_mm pitch_dx_mm pitch_dy_mm
         = (Inr (pages, start_number + count), fs(output_path \<mapsto> doc))"
    using generate_pdf_valid [OF valid layout p texts, of fs output_path kind draw_border
        offset_x_mm offset_y_mm pitch_dx_mm pitch_dy_mm] ge
    by (simp add: doc_def j_def min_def)
  have 2: "int (length doc) = pages" using p0 by (simp add: doc_def)
  have "map lc_text (concat (map (page_at j start_number count) [0..<nat pages]))
       = map (\<lambda>m. padded_text (j_prefix j) (j_leading_zeros j) (start_number + int m))
           [0..<nat (min (int (nat pages) * labels_per_page (j_layout j)) count)]"
    by (rule pages_texts) (use lpp valid texts in \<open>simp_all add: j_def\<close>)
  then have 3: "map lc_text (concat doc)
         = map (\<lambda>m. padded_text prefix leading_zeros (start_number + int m)) [0..<nat count]"
    using ge p0 by (simp add: doc_def j_def min_def)
  show ?thesis using 1 2 3 unfolding pages_def by blast
qed

text \<open>
  The run with the default layout (189 labels per page) and
  \<open>count = 189 * 2 ^ 53 + 1 = 1702360659146047489\<close>, on \<open>cpython64\<close> and with libraries
  of which no call fails. The exact quotient
  \<open>2 ^ 53 + 1 / 189\<close> rounds to the float \<open>2 ^ 53\<close>, so \<^verbatim>\<open>math.ceil(count / labels_per_page)\<close>
  is \<open>2 ^ 53\<close>, one page short.
\<close>

lemma big_run:
  assumes "int k = 9007199254740992"
  shows "generate_pdf cpython64 libraries_work Map.empty ''labels.pdf'' 1 1702360659146047489 ''ASN'' 7 QR AVERY_L4731
           False (Fin 0) (Fin 0) (Fin 0) (Fin 0)
         = (Inr (9007199254740992, 1702360659146047489),
            [''labels.pdf'' \<mapsto>
               map (page_at (make_job cpython64 libraries_work ''ASN'' 7 QR AVERY_L4731 False
                               (Fin 0) (Fin 0) (Fin 0) (Fin 0)) 1 1702360659146047489)
                   [0..<k]])"
proof -
  have k: "nat 9007199254740992 = k" using assms by simp
  have p: "math_ceil_truediv 1702360659146047489 (labels_per_page AVERY_L4731)
         = Inr 9007199254740992"
    using pages_big by simp
  have v: "(0::int) < 1702360659146047489" "(0::int) < 1" "(0::int) \<le> 7" "''ASN'' \<noteq> []"
    "0 < cols AVERY_L4731" "0 < rows AVERY_L4731" "labels_per_page AVERY_L4731 \<le> 2 ^ 53"
    by simp_all
  have t: "\<forall>n. 1 \<le> n \<and> n < 1 + 1702360659146047489 \<longrightarrow>
             (\<exists>t. make_asn_text cpython64 ''ASN'' n 7 = Inr t)"
    by (simp add: make_asn_text_cpython64)
  show ?thesis
    using generate_pdf_valid [OF v p t, of Map.empty "''labels.pdf''" QR False
        "Fin 0" "Fin 0" "Fin 0" "Fin 0"]
    unfolding k by simp
qed

lemma big_run_texts:
  assumes "int k = 9007199254740992"
  shows "map lc_text (concat (map (page_at (make_job cpython64 libraries_work ''ASN'' 7 QR AVERY_L4731 False
                               (Fin 0) (Fin 0) (Fin 0) (Fin 0)) 1 1702360659146047489) [0..<k]))
       = map (\<lambda>m. padded_text ''ASN'' 7 (1 + int m)) [0..<nat 1702360659146047488]"
proof -
  define j where "j = make_job cpython64 libraries_work ''ASN'' 7 QR AVERY_L4731 False (Fin 0) (Fin 0) (Fin 0) (Fin 0)"
  have "map lc_text (concat (map (page_at j 1 1702360659146047489) [0..<k]))
       = map (\<lambda>m. padded_text (j_prefix j) (j_leading_zeros j) (1 + int m))
           [0..<nat (min (int k * labels_per_page (j_layout j)) 1702360659146047489)]"
    by (rule pages_texts) (simp_all add: j_def make_asn_text_cpython64)
  moreover have "min (int k * labels_per_page (j_layout j)) 1702360659146047489
      = 1702360659146047488"
    by (simp add: assms j_def)
  ultimately show ?thesis
    by (simp only: j_def AVERY_job)
qed

text \<open>
  C1. At \<open>start_number = 1\<close>, \<open>count = 1702360659146047489\<close>, a valid input, the code
  draws the texts of the numbers \<open>1\<close> to \<open>count - 1\<close> only, and returns the next number
  \<open>1702360659146047489 = start_number + count - 1\<close>, not \<open>start_number + count\<close>: the
  last label is never drawn.
\<close>

theorem generate_pdf_drops_last_label:
  "map_sum id snd (fst (generate_pdf cpython64 libraries_work Map.empty ''labels.pdf'' 1 1702360659146047489 ''ASN'' 7 QR
          AVERY_L4731 False (Fin 0) (Fin 0) (Fin 0) (Fin 0)))
     = Inr 1702360659146047489
   \<and> (\<exists>doc. snd (generate_pdf cpython64 libraries_work Map.empty ''labels.pdf'' 1 1702360659146047489 ''ASN'' 7 QR
                   AVERY_L4731 False (Fin 0) (Fin 0) (Fin 0) (Fin 0)) ''labels.pdf'' = Some doc
          \<and> map lc_text (concat doc)
              = map (\<lambda>m. padded_text ''ASN'' 7 (1 + int m)) [0..<nat 1702360659146047488])"
proof -
  define k where "k = nat 9007199254740992"
  have ik: "int k = 9007199254740992" by (simp add: k_def)
  show ?thesis
    unfolding big_run [OF ik] fst_conv snd_conv
    using big_run_texts [OF ik] by (simp only: fun_upd_same map_sum.simps snd_conv) blast
qed

text \<open>
  C2. At the same input the code produces and returns \<open>9007199254740992\<close> pages, while
  \<open>ceil(count / (columns * rows))\<close> is \<open>9007199254740993\<close>.
\<close>

theorem generate_pdf_page_count_short:
  "map_sum id fst (fst (generate_pdf cpython64 libraries_work Map.empty ''labels.pdf'' 1 1702360659146047489 ''ASN'' 7 QR
          AVERY_L4731 False (Fin 0) (Fin 0) (Fin 0) (Fin 0)))
     = Inr 9007199254740992
   \<and> \<lceil>(1702360659146047489 :: rat) / of_int (labels_per_page AVERY_L4731)\<rceil>
     = 9007199254740993"
proof -
  define k where "k = nat 9007199254740992"
  have ik: "int k = 9007199254740992" by (simp add: k_def)
  have "\<lceil>(1702360659146047489 :: rat) / of_int (labels_per_page AVERY_L4731)\<rceil>
     = 9007199254740993"
    by (simp add: ceiling_rat_numeral)
  then show ?thesis
    unfolding big_run [OF ik] fst_conv by (simp only: map_sum.simps fst_conv)
qed

text \<open>
  C3. At the same input the file has \<open>9007199254740992\<close> pages; when the last page
  starts, 190 labels remain, and the last page receives 189 of them, not the remainder:
  the pages hold \<open>count - 1\<close> labels in all.
\<close>

theorem generate_pdf_last_page_short:
  "\<exists>doc. snd (generate_pdf cpython64 libraries_work Map.empty ''labels.pdf'' 1 1702360659146047489 ''ASN'' 7 QR
                 AVERY_L4731 False (Fin 0) (Fin 0) (Fin 0) (Fin 0)) ''labels.pdf'' = Some doc
     \<and> int (length doc) = 9007199254740992
     \<and> 1702360659146047489 - labels_per_page AVERY_L4731 * (int (length doc) - 1) = 190
     \<and> length (last doc) = 189
     \<and> int (length (concat doc)) = 1702360659146047489 - 1"
proof -
  define k where "k = nat 9007199254740992"
  have ik: "int k = 9007199254740992" by (simp add: k_def)
  define j where "j = make_job cpython64 libraries_work ''ASN'' 7 QR AVERY_L4731 False (Fin 0) (Fin 0) (Fin 0) (Fin 0)"
  define doc where "doc = map (page_at j 1 1702360659146047489) [0..<k]"
  have kpos: "0 < k" using ik by linarith
  have ik1: "int (k - Suc 0) = 9007199254740991" using ik kpos by linarith
  have 1: "int (length doc) = 9007199254740992" by (simp add: doc_def ik)
  have 2: "1702360659146047489 - labels_per_page AVERY_L4731 * (int (length doc) - 1) = 190"
    by (simp add: 1)
  have "last doc = page_at j 1 1702360659146047489 (k - 1)"
    using kpos by (simp add: doc_def last_map)
  then have 3: "length (last doc) = 189"
    by (simp add: page_at_def Let_def ik1 j_def)
  have "length (map lc_text (concat doc)) = nat 1702360659146047488"
    using big_run_texts [OF ik] by (simp only: doc_def j_def length_map length_upt)
  then have 4: "int (length (concat doc)) = 1702360659146047489 - 1" by simp
  have "snd (generate_pdf cpython64 libraries_work Map.empty ''labels.pdf'' 1 1702360659146047489 ''ASN'' 7 QR
                 AVERY_L4731 False (Fin 0) (Fin 0) (Fin 0) (Fin 0)) ''labels.pdf'' = Some doc"
    unfolding big_run [OF ik] snd_conv doc_def j_def by (simp only: fun_upd_same)
  then show ?thesis using 1 2 3 4 by blast
qed

section \<open>Loading and saving settings; calibration in the form\<close>

lemma strip_delta: "lower (strip ''delta'') = ''delta''"
  by (simp add: lower_def strip_def is_space_def lower_char_def)

lemma mode_of_saved: "calibration_mode_of b (settings_to_dict st) = ''delta''"
  by (simp add: calibration_mode_of_def settings_to_dict_def strip_delta)

lemma not_legacy_saved: "\<not> legacy_absolute b (settings_to_dict st)"
  by (simp add: legacy_absolute_def mode_of_saved)

lemma saved_lookups:
  "settings_to_dict st ''start'' = Some (PStr (var_start st))"
  "settings_to_dict st ''mode'' = Some (PStr (var_mode st))"
  "settings_to_dict st ''count'' = Some (PStr (var_count st))"
  "settings_to_dict st ''pages'' = Some (PStr (var_pages st))"
  "settings_to_dict st ''prefix'' = Some (PStr (var_prefix st))"
  "settings_to_dict st ''zeros'' = Some (PStr (var_zeros st))"
  "settings_to_dict st ''kind'' = Some (PStr (var_kind st))"
  "settings_to_dict st ''border'' = Some (PBool (var_border st))"
  "settings_to_dict st ''off_x'' = Some (PStr (var_off_x st))"
  "settings_to_dict st ''off_y'' = Some (PStr (var_off_y st))"
  "settings_to_dict st ''pitch_dx'' = Some (PStr (var_pitch_dx st))"
  "settings_to_dict st ''pitch_dy'' = Some (PStr (var_pitch_dy st))"
  by (simp_all add: settings_to_dict_def)

text \<open>
  C10. Settings round trip: the dict that \<open>settings_to_dict\<close> makes of the variables
  \<open>st\<close> is tagged \<open>delta\<close>, so loading it, into any state of the form, sets every
  variable to its value in \<open>st\<close>; no legacy conversion is applied. (The flag
  \<open>loading_settings\<close> is off after loading.)
\<close>

theorem settings_round_trip:
  "apply_settings_from_dict b st0 (settings_to_dict st) = st\<lparr> loading_settings := False \<rparr>"
proof -
  have l: "legacy_absolute b (settings_to_dict st) = False"
    using not_legacy_saved by simp
  show ?thesis
    unfolding apply_settings_from_dict_def l Let_def set_from_def set_calibration_var_def
      saved_lookups
    by (cases st0, cases st) simp
qed


lemma fl_92: "fl (9 / 2) = Fin (9 / 2)"
  by (rule fl_eval [where e = 2 and m = 5066549580791808])
     (simp_all add: round_half_even_def Let_def floor_rat_numeral)

lemma fl_7: "fl 7 = Fin 7"
  using fl_of_int_exact [of 7] by simp

lemma fl_12: "fl (6 / 5) = Fin (5404319552844595 / 4503599627370496)"
  by (rule fl_eval [where e = 0 and m = 5404319552844595])
     (simp_all add: round_half_even_def Let_def floor_rat_numeral)

lemma fl_042: "fl (21 / 50) = Fin (7566047373982433 / 18014398509481984)"
  by (rule fl_eval [where e = "- 2" and m = 7566047373982433])
     (simp_all add: round_half_even_def Let_def floor_rat_numeral)

lemma fl_1e9: "fl (1 / 1000000000) = Fin (4835703278458517 / 4835703278458516698824704)"
  by (rule fl_eval [where e = "- 30" and m = 4835703278458517])
     (simp_all add: round_half_even_def Let_def floor_rat_numeral)

lemma BASE_lookups:
  "BASE_CALIBRATION_MM ''off_x'' = Some (Fin (- 9 / 2))"
  "BASE_CALIBRATION_MM ''off_y'' = Some (Fin 7)"
  "BASE_CALIBRATION_MM ''pitch_dx'' = Some (Fin (5404319552844595 / 4503599627370496))"
  "BASE_CALIBRATION_MM ''pitch_dy'' = Some (Fin (7566047373982433 / 18014398509481984))"
  by (simp_all add: BASE_CALIBRATION_MM_def fl_92 fl_7 fl_12 fl_042)

lemma near_zero_0: "near_zero (Fin 0)"
  by (simp add: near_zero_def fl_1e9 the_fin_def)

lemma set_from_other:
  "(\<And>v s. P (g v s) = P s) \<Longrightarrow> P (set_from d k g st) = P st"
  by (simp add: set_from_def split: option.splits)

lemma set_calibration_var_other:
  "(\<And>x s. P (g x s) = P s) \<Longrightarrow> P (set_calibration_var b d l k g st) = P st"
  by (simp add: set_calibration_var_def split: option.splits)

lemma set_calibration_var_here:
  assumes "d key = Some v" "BASE_CALIBRATION_MM key = Some base" "\<And>x s. P (g x s) = x"
  shows "P (set_calibration_var b d l key g st)
       = (case (if l then coerce_float b v else None) of
            Some absolute \<Rightarrow> str_of_float b (fsub absolute base)
          | None \<Rightarrow> py_str b v)"
  using assms by (simp add: set_calibration_var_def split: option.splits)

lemma apply_var_off_x:
  assumes "d ''off_x'' = Some v"
  shows "var_off_x (apply_settings_from_dict b st d)
       = (case (if legacy_absolute b d then coerce_float b v else None) of
            Some absolute \<Rightarrow> str_of_float b (fsub absolute (Fin (- 9 / 2)))
          | None \<Rightarrow> py_str b v)"
  unfolding apply_settings_from_dict_def Let_def
  by (simp add: set_calibration_var_other [where P = var_off_x]
        set_calibration_var_here [where P = var_off_x and d = d and key = "''off_x''" and v = v,
          OF assms BASE_lookups(1)])

lemma apply_var_off_y:
  assumes "d ''off_y'' = Some v"
  shows "var_off_y (apply_settings_from_dict b st d)
       = (case (if legacy_absolute b d then coerce_float b v else None) of
            Some absolute \<Rightarrow> str_of_float b (fsub absolute (Fin 7))
          | None \<Rightarrow> py_str b v)"
  unfolding apply_settings_from_dict_def Let_def
  by (simp add: set_calibration_var_other [where P = var_off_y]
        set_calibration_var_here [where P = var_off_y and d = d and key = "''off_y''" and v = v,
          OF assms BASE_lookups(2)])

lemma apply_var_pitch_dx:
  assumes "d ''pitch_dx'' = Some v"
  shows "var_pitch_dx (apply_settings_from_dict b st d)
       = (case (if legacy_absolute b d then coerce_float b v else None) of
            Some absolute \<Rightarrow>
              str_of_float b (fsub absolute (Fin (5404319552844595 / 4503599627370496)))
          | None \<Rightarrow> py_str b v)"
  unfolding apply_settings_from_dict_def Let_def
  by (simp add: set_calibration_var_other [where P = var_pitch_dx]
        set_calibration_var_here [where P = var_pitch_dx and d = d and key = "''pitch_dx''" and v = v,
          OF assms BASE_lookups(3)])

lemma apply_var_pitch_dy:
  assumes "d ''pitch_dy'' = Some v"
  shows "var_pitch_dy (apply_settings_from_dict b st d)
       = (case (if legacy_absolute b d then coerce_float b v else None) of
            Some absolute \<Rightarrow>
              str_of_float b (fsub absolute (Fin (7566047373982433 / 18014398509481984)))
          | None \<Rightarrow> py_str b v)"
  unfolding apply_settings_from_dict_def Let_def
  by (simp add: set_calibration_var_other [where P = var_pitch_dy]
        set_calibration_var_here [where P = var_pitch_dy and d = d and key = "''pitch_dy''" and v = v,
          OF assms BASE_lookups(4)])

lemma apply_calibration_var:
  assumes "key \<in> set [''off_x'', ''off_y'', ''pitch_dx'', ''pitch_dy'']" "d key = Some v"
    "BASE_CALIBRATION_MM key = Some base"
  shows "calibration_var key (apply_settings_from_dict b st d)
       = (case (if legacy_absolute b d then coerce_float b v else None) of
            Some absolute \<Rightarrow> str_of_float b (fsub absolute base)
          | None \<Rightarrow> py_str b v)"
proof -
  consider "key = ''off_x''" | "key = ''off_y''" | "key = ''pitch_dx''" | "key = ''pitch_dy''"
    using assms(1) by auto
  then show ?thesis
  proof cases
    case 1
    then have base: "base = Fin (- 9 / 2)" using assms(3) by (simp add: BASE_lookups)
    show ?thesis unfolding base using 1 assms(2) apply_var_off_x [of d v b st]
      by (simp add: calibration_var_def)
  next
    case 2
    then have base: "base = Fin 7" using assms(3) by (simp add: BASE_lookups)
    show ?thesis unfolding base using 2 assms(2) apply_var_off_y [of d v b st]
      by (simp add: calibration_var_def)
  next
    case 3
    then have base: "base = Fin (5404319552844595 / 4503599627370496)" using assms(3) by (simp add: BASE_lookups)
    show ?thesis unfolding base using 3 assms(2) apply_var_pitch_dx [of d v b st]
      by (simp add: calibration_var_def)
  next
    case 4
    then have base: "base = Fin (7566047373982433 / 18014398509481984)" using assms(3) by (simp add: BASE_lookups)
    show ?thesis unfolding base using 4 assms(2) apply_var_pitch_dy [of d v b st]
      by (simp add: calibration_var_def)
  qed
qed

lemma option_case_ex:
  "(case v of None \<Rightarrow> False | Some x \<Rightarrow> P x) \<longleftrightarrow> (\<exists>x. v = Some x \<and> P x)"
  by (cases v) simp_all

lemma legacy_absolute_iff:
  "legacy_absolute b d \<longleftrightarrow>
     calibration_mode_of b d \<noteq> ''delta''
     \<and> \<not> (calibration_mode_of b d = []
          \<and> (\<exists>k\<in>set [''off_x'', ''off_y'', ''pitch_dx'', ''pitch_dy'']. d k \<noteq> None)
          \<and> (\<forall>k\<in>set [''off_x'', ''off_y'', ''pitch_dx'', ''pitch_dy''].
                d k \<noteq> None \<longrightarrow> (\<exists>x. coerce_float b (dict_get d k) = Some x \<and> near_zero x)))"
proof -
  define keys where "keys = [''off_x'', ''off_y'', ''pitch_dx'', ''pitch_dy'']"
  define present where "present = filter (\<lambda>k. d k \<noteq> None) keys"
  define parsed where "parsed = map (\<lambda>k. coerce_float b (dict_get d k)) present"
  have 1: "parsed \<noteq> [] \<longleftrightarrow> (\<exists>k\<in>set keys. d k \<noteq> None)"
    by (auto simp: parsed_def present_def filter_empty_conv)
  have 2: "list_all (\<lambda>v. case v of None \<Rightarrow> False | Some x \<Rightarrow> near_zero x) parsed
      \<longleftrightarrow> (\<forall>k\<in>set keys. d k \<noteq> None \<longrightarrow> (\<exists>x. coerce_float b (dict_get d k) = Some x \<and> near_zero x))"
    by (auto simp: parsed_def present_def list_all_iff option_case_ex)
  show ?thesis
    unfolding legacy_absolute_def Let_def keys_def [symmetric] present_def [symmetric]
      parsed_def [symmetric] 1 2
    by auto
qed

text \<open>
  C7, as amended. For a calibration key that the dict has, with value \<open>v\<close> and baseline
  \<open>base\<close>: when the code takes the dict for legacy absolute and \<open>v\<close> parses as the
  float \<open>absolute\<close>, the variable is set to \<open>str(absolute - base)\<close>; when \<open>v\<close> does not
  parse, and when the code does not take the dict for legacy absolute, the variable is
  set to \<open>str(v)\<close>, the stored value unchanged. The code takes a dict for legacy absolute
  when its tag (stripped, in lower case) is not \<open>delta\<close>, unless the tag is missing or
  empty and every calibration value present parses to a float below \<open>1e-9\<close> in
  magnitude (and one is present): such a dict is read as deltas. So a dict tagged
  \<open>delta\<close> is left unchanged; a dict without a tag whose calibration values are all
  zero is left unchanged; a value that parses is converted in a dict with another tag,
  and in a dict without a tag of which some calibration value does not parse to zero.
\<close>

theorem legacy_conversion:
  assumes "key \<in> set [''off_x'', ''off_y'', ''pitch_dx'', ''pitch_dy'']"
    and "d key = Some v" and "BASE_CALIBRATION_MM key = Some base"
  shows "(legacy_absolute b d \<and> coerce_float b v = Some absolute \<longrightarrow>
            calibration_var key (apply_settings_from_dict b st d)
              = str_of_float b (fsub absolute base))
       \<and> (legacy_absolute b d \<and> coerce_float b v = None \<longrightarrow>
            calibration_var key (apply_settings_from_dict b st d) = py_str b v)
       \<and> (calibration_mode_of b d = ''delta'' \<longrightarrow>
            calibration_var key (apply_settings_from_dict b st d) = py_str b v)
       \<and> (legacy_absolute b d \<longleftrightarrow>
            calibration_mode_of b d \<noteq> ''delta''
            \<and> \<not> (calibration_mode_of b d = []
                 \<and> (\<exists>k\<in>set [''off_x'', ''off_y'', ''pitch_dx'', ''pitch_dy'']. d k \<noteq> None)
                 \<and> (\<forall>k\<in>set [''off_x'', ''off_y'', ''pitch_dx'', ''pitch_dy''].
                       d k \<noteq> None \<longrightarrow>
                       (\<exists>x. coerce_float b (dict_get d k) = Some x \<and> near_zero x))))
       \<and> (\<not> legacy_absolute b d \<longrightarrow>
            calibration_var key (apply_settings_from_dict b st d) = py_str b v)
       \<and> (calibration_mode_of b d = []
            \<and> (\<forall>k\<in>set [''off_x'', ''off_y'', ''pitch_dx'', ''pitch_dy''].
                  d k \<noteq> None \<longrightarrow>
                  (\<exists>x. coerce_float b (dict_get d k) = Some x \<and> near_zero x)) \<longrightarrow>
            calibration_var key (apply_settings_from_dict b st d) = py_str b v)
       \<and> (calibration_mode_of b d \<noteq> ''delta'' \<and> calibration_mode_of b d \<noteq> []
            \<and> coerce_float b v = Some absolute \<longrightarrow>
            calibration_var key (apply_settings_from_dict b st d)
              = str_of_float b (fsub absolute base))
       \<and> (calibration_mode_of b d = []
            \<and> (\<exists>k\<in>set [''off_x'', ''off_y'', ''pitch_dx'', ''pitch_dy''].
                  d k \<noteq> None
                  \<and> \<not> (\<exists>x. coerce_float b (dict_get d k) = Some x \<and> near_zero x))
            \<and> coerce_float b v = Some absolute \<longrightarrow>
            calibration_var key (apply_settings_from_dict b st d)
              = str_of_float b (fsub absolute base))"
proof -
  note a = apply_calibration_var [where key = key and d = d and v = v and base = base
      and b = b and st = st, OF assms]
  have nl: "\<not> legacy_absolute b d" if "calibration_mode_of b d = ''delta''"
    using that by (simp add: legacy_absolute_def)
  have 1: "calibration_var key (apply_settings_from_dict b st d)
              = str_of_float b (fsub absolute base)"
    if "legacy_absolute b d" "coerce_float b v = Some absolute"
    using a that by simp
  have 2: "calibration_var key (apply_settings_from_dict b st d) = py_str b v"
    if "legacy_absolute b d" "coerce_float b v = None"
    using a that by simp
  have 3: "calibration_var key (apply_settings_from_dict b st d) = py_str b v"
    if "calibration_mode_of b d = ''delta''"
    using a nl [OF that] by simp
  have 4: "calibration_var key (apply_settings_from_dict b st d) = py_str b v"
    if "\<not> legacy_absolute b d"
    using a that by simp
  note i = legacy_absolute_iff [of b d]
  have p: "\<exists>k\<in>set [''off_x'', ''off_y'', ''pitch_dx'', ''pitch_dy'']. d k \<noteq> None"
    using assms(1,2) by auto
  have 5: "calibration_var key (apply_settings_from_dict b st d) = py_str b v"
    if "calibration_mode_of b d = []
            \<and> (\<forall>k\<in>set [''off_x'', ''off_y'', ''pitch_dx'', ''pitch_dy''].
                  d k \<noteq> None \<longrightarrow>
                  (\<exists>x. coerce_float b (dict_get d k) = Some x \<and> near_zero x))"
  proof -
    have "\<not> legacy_absolute b d" unfolding i using that p by blast
    then show ?thesis by (rule 4)
  qed
  have 6: "calibration_var key (apply_settings_from_dict b st d)
              = str_of_float b (fsub absolute base)"
    if "calibration_mode_of b d \<noteq> ''delta'' \<and> calibration_mode_of b d \<noteq> []
            \<and> coerce_float b v = Some absolute"
  proof -
    have "legacy_absolute b d" unfolding i using that by blast
    then show ?thesis using that by (intro 1) simp_all
  qed
  have 7: "calibration_var key (apply_settings_from_dict b st d)
              = str_of_float b (fsub absolute base)"
    if "calibration_mode_of b d = []
            \<and> (\<exists>k\<in>set [''off_x'', ''off_y'', ''pitch_dx'', ''pitch_dy''].
                  d k \<noteq> None
                  \<and> \<not> (\<exists>x. coerce_float b (dict_get d k) = Some x \<and> near_zero x))
            \<and> coerce_float b v = Some absolute"
  proof -
    have "calibration_mode_of b d \<noteq> ''delta''" using that by simp
    then have "legacy_absolute b d" unfolding i using that by blast
    then show ?thesis using that by (intro 1) simp_all
  qed
  have c: "(legacy_absolute b d \<and> coerce_float b v = Some absolute \<longrightarrow>
            calibration_var key (apply_settings_from_dict b st d)
              = str_of_float b (fsub absolute base))
       \<and> (legacy_absolute b d \<and> coerce_float b v = None \<longrightarrow>
            calibration_var key (apply_settings_from_dict b st d) = py_str b v)
       \<and> (calibration_mode_of b d = ''delta'' \<longrightarrow>
            calibration_var key (apply_settings_from_dict b st d) = py_str b v)"
    using 1 2 3 by blast
  show ?thesis
    using c i 4 5 6 7 by (intro conjI impI) blast+
qed

lemma strip_plain:
  "strip ''2.5'' = ''2.5''" "strip ''0'' = ''0''" "strip ''0.0'' = ''0.0''"
  "strip ''1'' = ''1''" "strip ''7'' = ''7''" "strip ''189'' = ''189''" "strip ''ASN'' = ''ASN''"
  "lower (strip ''absolute'') = ''absolute''" "lower (strip []) = []"
  by (simp_all add: strip_def is_space_def lower_def lower_char_def)

lemma example_coerce:
  "coerce_float example_builtins (PStr ''2.5'') = Some (Fin (5 / 2))"
  "coerce_float example_builtins (PStr ''0'') = Some (Fin 0)"
  "coerce_float example_builtins (PStr ''0.0'') = Some (Fin 0)"
  by (simp_all add: coerce_float_def strip_plain replace_comma_def example_builtins_def)

theorem legacy_conversion_witness:
  "calibration_var ''off_x''
     (apply_settings_from_dict example_builtins initial_app
        [''off_x'' \<mapsto> PStr ''2.5'', ''calibration_mode'' \<mapsto> PStr ''absolute'']) = ''7.0''
   \<and> calibration_var ''off_x''
     (apply_settings_from_dict example_builtins initial_app
        [''off_x'' \<mapsto> PStr ''2.5'', ''calibration_mode'' \<mapsto> PStr ''delta'']) = ''2.5''
   \<and> calibration_var ''off_x''
     (apply_settings_from_dict example_builtins initial_app
        [''off_x'' \<mapsto> PStr ''2.5'']) = ''7.0''
   \<and> calibration_var ''off_y''
     (apply_settings_from_dict example_builtins initial_app
        [''off_x'' \<mapsto> PStr ''0.0'', ''off_y'' \<mapsto> PStr ''0'']) = ''0''"
proof -
  define d1 :: settings
    where "d1 = [''off_x'' \<mapsto> PStr ''2.5'', ''calibration_mode'' \<mapsto> PStr ''absolute'']"
  define d2 :: settings
    where "d2 = [''off_x'' \<mapsto> PStr ''2.5'', ''calibration_mode'' \<mapsto> PStr ''delta'']"
  have k: "''off_x'' \<in> set [''off_x'', ''off_y'', ''pitch_dx'', ''pitch_dy'']" by simp
  have v1: "d1 ''off_x'' = Some (PStr ''2.5'')" and v2: "d2 ''off_x'' = Some (PStr ''2.5'')"
    by (simp_all add: d1_def d2_def)
  have m1: "calibration_mode_of example_builtins d1 = ''absolute''"
    by (simp add: calibration_mode_of_def d1_def strip_plain)
  have m2: "calibration_mode_of example_builtins d2 = ''delta''"
    by (simp add: calibration_mode_of_def d2_def strip_delta)
  have l1: "legacy_absolute example_builtins d1"
    by (simp add: legacy_absolute_def m1)
  have s: "str_of_float example_builtins (fsub (Fin (5 / 2)) (Fin (- 9 / 2))) = ''7.0''"
    by (simp add: fsub_def fl_7 example_builtins_def)
  from legacy_conversion [where key = "''off_x''" and d = d1 and v = "PStr ''2.5''"
      and b = example_builtins and absolute = "Fin (5 / 2)" and st = initial_app,
      OF k v1 BASE_lookups(1)]
    l1 example_coerce(1) s
  have 1: "calibration_var ''off_x'' (apply_settings_from_dict example_builtins initial_app d1)
         = ''7.0''"
    by simp
  from legacy_conversion [where key = "''off_x''" and d = d2 and v = "PStr ''2.5''"
      and b = example_builtins and absolute = "Fin (5 / 2)" and st = initial_app,
      OF k v2 BASE_lookups(1)]
    m2
  have 2: "calibration_var ''off_x'' (apply_settings_from_dict example_builtins initial_app d2)
         = ''2.5''"
    by simp
  define d3 :: settings where "d3 = [''off_x'' \<mapsto> PStr ''2.5'']"
  define d4 :: settings where "d4 = [''off_x'' \<mapsto> PStr ''0.0'', ''off_y'' \<mapsto> PStr ''0'']"
  have k4: "''off_y'' \<in> set [''off_x'', ''off_y'', ''pitch_dx'', ''pitch_dy'']" by simp
  have v3: "d3 ''off_x'' = Some (PStr ''2.5'')" and v4: "d4 ''off_y'' = Some (PStr ''0'')"
    by (simp_all add: d3_def d4_def)
  have m3: "calibration_mode_of example_builtins d3 = []"
    and m4: "calibration_mode_of example_builtins d4 = []"
    by (simp_all add: calibration_mode_of_def d3_def d4_def strip_plain)
  have n3: "\<exists>k\<in>set [''off_x'', ''off_y'', ''pitch_dx'', ''pitch_dy''].
              d3 k \<noteq> None
              \<and> \<not> (\<exists>x. coerce_float example_builtins (dict_get d3 k) = Some x \<and> near_zero x)"
    by (simp add: d3_def dict_get_def example_coerce near_zero_def fl_1e9 the_fin_def)
  have z4: "\<forall>k\<in>set [''off_x'', ''off_y'', ''pitch_dx'', ''pitch_dy''].
              d4 k \<noteq> None \<longrightarrow>
              (\<exists>x. coerce_float example_builtins (dict_get d4 k) = Some x \<and> near_zero x)"
    by (simp add: d4_def dict_get_def example_coerce near_zero_0)
  from legacy_conversion [where key = "''off_x''" and d = d3 and v = "PStr ''2.5''"
      and b = example_builtins and absolute = "Fin (5 / 2)" and st = initial_app,
      OF k v3 BASE_lookups(1)]
    m3 n3 example_coerce(1) s
  have 3: "calibration_var ''off_x'' (apply_settings_from_dict example_builtins initial_app d3)
         = ''7.0''"
    by simp
  from legacy_conversion [where key = "''off_y''" and d = d4 and v = "PStr ''0''"
      and b = example_builtins and absolute = "Fin 0" and st = initial_app,
      OF k4 v4 BASE_lookups(2)]
    m4 z4
  have 4: "calibration_var ''off_y'' (apply_settings_from_dict example_builtins initial_app d4)
         = ''0''"
    by simp
  show ?thesis using 1 2 3 4 unfolding d1_def d2_def d3_def d4_def by simp
qed

text \<open>
  C7 as stated fails for a dict without a tag whose calibration values are all zero:
  \<open>{"off_x": "0"}\<close> is not tagged \<open>delta\<close>, its value parses to \<open>0.0\<close> and the baseline
  is \<open>-4.5\<close>, so the claim asks for \<open>str(0.0 - (-4.5)) = "4.5"\<close>, and the code leaves
  \<open>"0"\<close>.
\<close>

theorem legacy_conversion_counterexample:
  "calibration_mode_of example_builtins [''off_x'' \<mapsto> PStr ''0''] \<noteq> ''delta''
   \<and> coerce_float example_builtins (PStr ''0'') = Some (Fin 0)
   \<and> BASE_CALIBRATION_MM ''off_x'' = Some (Fin (- 9 / 2))
   \<and> str_of_float example_builtins (fsub (Fin 0) (Fin (- 9 / 2))) = ''4.5''
   \<and> var_off_x (apply_settings_from_dict example_builtins initial_app [''off_x'' \<mapsto> PStr ''0''])
       = ''0''"
proof -
  define d :: settings where "d = [''off_x'' \<mapsto> PStr ''0'']"
  have m: "calibration_mode_of example_builtins d = []"
    by (simp add: calibration_mode_of_def d_def strip_plain)
  have nl: "\<not> legacy_absolute example_builtins d"
    unfolding legacy_absolute_def Let_def m
    by (simp add: d_def dict_get_def example_coerce near_zero_0)
  have v: "d ''off_x'' = Some (PStr ''0'')" by (simp add: d_def)
  have 1: "var_off_x (apply_settings_from_dict example_builtins initial_app d) = ''0''"
    using apply_var_off_x [where d = d and v = "PStr ''0''" and b = example_builtins
        and st = initial_app, OF v] nl by simp
  have 2: "str_of_float example_builtins (fsub (Fin 0) (Fin (- 9 / 2))) = ''4.5''"
    by (simp add: fsub_def fl_92 example_builtins_def)
  show ?thesis
    using m 1 2 example_coerce(2) BASE_lookups(1) unfolding d_def by simp
qed







end
